theory Spec2Isabelle
  imports Main "HOL-Library.Word"
begin

unbundle bit_operations_syntax

section \<open>The gg-ws WebSocket client: data model\<close>

text \<open>
  The development embeds the wire-level engine of the gg-ws library
  (\<^verbatim>\<open>websocket.cpp\<close>, \<^verbatim>\<open>types.hpp\<close>,
  \<^verbatim>\<open>heartbeat_manager.hpp\<close>): the URL parser, the frame encoder
  \<^verbatim>\<open>sendFrame\<close>, the frame reader \<^verbatim>\<open>readFrame\<close> with its handlers,
  the I/O loop, the reconnection path and the heartbeat manager's locking.
  Bytes are \<open>8 word\<close>, \<^verbatim>\<open>uint16_t\<close> is \<open>16 word\<close>, \<^verbatim>\<open>uint64_t\<close> and
  \<^verbatim>\<open>size_t\<close> values that are shifted are \<open>64 word\<close>.
\<close>

type_synonym byte = "8 word"

subsection \<open>Constants of types.hpp\<close>

definition ErrorCode_ConnectionFailed :: int where "ErrorCode_ConnectionFailed = 1001"
definition ErrorCode_HandshakeFailed :: int where "ErrorCode_HandshakeFailed = 1002"
definition ErrorCode_InvalidUrl :: int where "ErrorCode_InvalidUrl = 1004"
definition ErrorCode_TlsError :: int where "ErrorCode_TlsError = 1005"
definition ErrorCode_MessageTooLarge :: int where "ErrorCode_MessageTooLarge = 1008"
definition ErrorCode_InvalidFrame :: int where "ErrorCode_InvalidFrame = 1009"

definition CloseCode_Normal :: int where "CloseCode_Normal = 1000"
definition CloseCode_GoingAway :: int where "CloseCode_GoingAway = 1001"
definition CloseCode_NoStatusReceived :: int where "CloseCode_NoStatusReceived = 1005"
definition CloseCode_AbnormalClosure :: int where "CloseCode_AbnormalClosure = 1006"

definition Opcode_Continuation :: byte where "Opcode_Continuation = 0x0"
definition Opcode_Text :: byte where "Opcode_Text = 0x1"
definition Opcode_Binary :: byte where "Opcode_Binary = 0x2"
definition Opcode_Close :: byte where "Opcode_Close = 0x8"
definition Opcode_Ping :: byte where "Opcode_Ping = 0x9"
definition Opcode_Pong :: byte where "Opcode_Pong = 0xA"

section \<open>URL parser\<close>

text \<open>
  C++ exceptions that leave the modelled code. \<open>InvalidArgument\<close> and \<open>OutOfRange\<close>
  are what \<^verbatim>\<open>std::stoi\<close> throws; \<open>StdTerminate\<close> is a call of
  \<^verbatim>\<open>std::terminate\<close>.
\<close>

datatype exn = InvalidArgument | OutOfRange | StdTerminate

record ParsedUrl =
  secure :: bool
  host :: string
  port :: "16 word"
  path :: string

text \<open>\<^verbatim>\<open>bool valid() const { return !host.empty() && port > 0; }\<close>\<close>

definition valid :: "ParsedUrl \<Rightarrow> bool" where
  "valid p = (host p \<noteq> [] \<and> 0 < port p)"

text \<open>
  \<^verbatim>\<open>std::string_view\<close> operations. \<open>substr pos n\<close> is written for positions
  inside the string: every call in \<^verbatim>\<open>parseUrl\<close> passes 0 or a position returned
  by a search in the same string, so the library's range check cannot fail there.
  \<open>find_char\<close> and \<open>rfind_char\<close> return \<open>None\<close> for \<^verbatim>\<open>npos\<close>.
\<close>

definition substr :: "nat \<Rightarrow> nat \<Rightarrow> string \<Rightarrow> string" where
  "substr pos n s = take n (drop pos s)"

definition substr_from :: "nat \<Rightarrow> string \<Rightarrow> string" where
  "substr_from pos s = drop pos s"

definition remove_prefix :: "nat \<Rightarrow> string \<Rightarrow> string" where
  "remove_prefix n s = drop n s"

fun find_char :: "char \<Rightarrow> string \<Rightarrow> nat option" where
  "find_char c [] = None"
| "find_char c (x # xs) =
     (if x = c then Some 0
      else (case find_char c xs of None \<Rightarrow> None | Some i \<Rightarrow> Some (Suc i)))"

fun rfind_char :: "char \<Rightarrow> string \<Rightarrow> nat option" where
  "rfind_char c [] = None"
| "rfind_char c (x # xs) =
     (case rfind_char c xs of
        Some i \<Rightarrow> Some (Suc i)
      | None \<Rightarrow> (if x = c then Some 0 else None))"

text \<open>
  \<^verbatim>\<open>std::stoi(str)\<close> in base 10, as the C++ standard defines it through
  \<^verbatim>\<open>strtol\<close>: leading white space is skipped, one sign is accepted, the longest
  run of decimal digits is converted and anything after it is ignored. No digit at all
  throws \<^verbatim>\<open>std::invalid_argument\<close>; a value outside the range of \<^verbatim>\<open>int\<close>
  throws \<^verbatim>\<open>std::out_of_range\<close>.
\<close>

definition isspace_c :: "char \<Rightarrow> bool" where
  "isspace_c c = ((of_char c :: nat) = 32 \<or> (9 \<le> (of_char c :: nat) \<and> (of_char c :: nat) \<le> 13))"

definition isdigit_c :: "char \<Rightarrow> bool" where
  "isdigit_c c = (48 \<le> (of_char c :: nat) \<and> (of_char c :: nat) \<le> 57)"

definition digit_value :: "char \<Rightarrow> int" where
  "digit_value c = int (of_char c) - 48"

definition decimal_value :: "string \<Rightarrow> int" where
  "decimal_value ds = foldl (\<lambda>acc c. acc * 10 + digit_value c) 0 ds"

definition stoi :: "string \<Rightarrow> exn + int" where
  "stoi str =
     (let s = dropWhile isspace_c str;
          neg = (s \<noteq> [] \<and> hd s = CHR ''-'');
          s' = (if s \<noteq> [] \<and> (hd s = CHR ''-'' \<or> hd s = CHR ''+'') then tl s else s);
          ds = takeWhile isdigit_c s'
      in if ds = [] then Inl InvalidArgument
         else let v = (if neg then - decimal_value ds else decimal_value ds)
              in if v < - 2147483648 \<or> 2147483647 < v then Inl OutOfRange else Inr v)"

text \<open>
  \<^verbatim>\<open>parseUrl\<close>. The port text is converted by \<^verbatim>\<open>std::stoi\<close> and cast to
  \<^verbatim>\<open>uint16_t\<close> (\<open>word_of_int\<close>: reduction modulo \<open>2 ^ 16\<close>); an exception of
  the conversion leaves the function.
\<close>

definition parseUrl :: "string \<Rightarrow> exn + ParsedUrl" where
  "parseUrl url0 =
     (let result = \<lparr>secure = False, host = [], port = 0, path = []\<rparr> in
      case (if substr 0 6 url0 = ''wss://'' then Some (True, remove_prefix 6 url0)
            else if substr 0 5 url0 = ''ws://'' then Some (False, remove_prefix 5 url0)
            else None) of
        None \<Rightarrow> Inr result
      | Some (sec, url) \<Rightarrow>
          (let result1 = result\<lparr>secure := sec, port := (if sec then 443 else 80)\<rparr>;
               hostPort = (case find_char CHR ''/'' url of
                             Some pathPos \<Rightarrow> substr 0 pathPos url
                           | None \<Rightarrow> url);
               result2 = (case find_char CHR ''/'' url of
                            Some pathPos \<Rightarrow> result1\<lparr>path := substr_from pathPos url\<rparr>
                          | None \<Rightarrow> result1\<lparr>path := ''/''\<rparr>)
           in case rfind_char CHR '':'' hostPort of
                Some colonPos \<Rightarrow>
                  (case stoi (substr_from (colonPos + 1) hostPort) of
                     Inl e \<Rightarrow> Inl e
                   | Inr v \<Rightarrow>
                       Inr (result2\<lparr>host := substr 0 colonPos hostPort, port := word_of_int v\<rparr>))
              | None \<Rightarrow> Inr (result2\<lparr>host := hostPort\<rparr>)))"

text \<open>
  The split of the text after the scheme as the specification words it: the authority
  \<^verbatim>\<open>host[:port]\<close> is everything before the first \<^verbatim>\<open>/\<close>, the path is the
  rest, or \<^verbatim>\<open>/\<close> when there is none. They are compared with \<open>parseUrl\<close>
  below.
\<close>

definition spec_authority :: "string \<Rightarrow> string" where
  "spec_authority rest = takeWhile (\<lambda>c. c \<noteq> CHR ''/'') rest"

definition spec_path :: "string \<Rightarrow> string" where
  "spec_path rest =
     (if dropWhile (\<lambda>c. c \<noteq> CHR ''/'') rest = [] then ''/''
      else dropWhile (\<lambda>c. c \<noteq> CHR ''/'') rest)"

section \<open>Transport\<close>

text \<open>
  What the peer sends on the connection, in arrival order: \<open>Bytes c\<close> is a segment of
  bytes that becomes readable at once, \<open>Quiet\<close> is one poll quantum (100 ms) in which
  nothing is readable. The empty list is the end of the stream.

  \<^verbatim>\<open>rawRecv(buffer, len)\<close> blocks until something is readable and returns at most
  \<open>len\<close> bytes of the first segment; at the end of the stream it returns no byte
  (the \<^verbatim>\<open>recv\<close> result 0, which every caller treats like a negative result).
  Its two branches, \<^verbatim>\<open>recv\<close> on the socket and \<^verbatim>\<open>SSL_read\<close> on a TLS
  session, are modelled alike. \<^verbatim>\<open>SSL_read\<close> is given the length as an
  \<^verbatim>\<open>int\<close> (as \<^verbatim>\<open>recv\<close> is on Windows), which is the same number for every
  read below \<open>2 ^ 31\<close> bytes; longer reads are outside this model.
\<close>

datatype rx = Bytes "byte list" | Quiet

fun rawRecv :: "nat \<Rightarrow> rx list \<Rightarrow> byte list \<times> rx list" where
  "rawRecv len [] = ([], [])"
| "rawRecv len (Quiet # rest) = rawRecv len rest"
| "rawRecv len (Bytes c # rest) =
     (take len c, if len < length c then Bytes (drop len c) # rest else rest)"

text \<open>
  \<^verbatim>\<open>waitForData(100)\<close>: one poll of the socket. A quiet quantum passes with the
  answer false; pending bytes and the end of the stream are readable.
\<close>

fun waitForData :: "rx list \<Rightarrow> bool \<times> rx list" where
  "waitForData (Quiet # rest) = (False, rest)"
| "waitForData inb = (True, inb)"

text \<open>
  A stretch of the inbound stream given by its segments: each segment of bytes arrives
  after a number of quiet quanta (possibly none).
\<close>

definition arriving :: "(nat \<times> byte list) list \<Rightarrow> rx list" where
  "arriving segs = concat (map (\<lambda>(q, c). replicate q Quiet @ [Bytes c]) segs)"

text \<open>
  The outcome of the four connection steps of one \<^verbatim>\<open>connect()\<close> call
  (\<^verbatim>\<open>initSocket\<close>, \<^verbatim>\<open>connectSocket\<close>, \<^verbatim>\<open>initTls\<close>,
  \<^verbatim>\<open>performHandshake\<close>), which the operating system, the TLS library and the
  server decide.
\<close>

record net_attempt =
  socketOk :: bool
  tcpOk :: bool
  tlsOk :: bool
  handshakeOk :: bool

section \<open>Session state and observable events\<close>

text \<open>
  Calls that leave the engine, in the order they are made: bytes handed to
  \<^verbatim>\<open>rawSend\<close>, invocations of the user's callbacks (the error message text is
  left out), notifications of the heartbeat manager and sleeps (in seconds).
\<close>

datatype event =
    RawSend "byte list"
  | OnError int
  | OnConnect
  | OnDisconnect int
  | OnRawMessage "byte list"
  | OnMessage "byte list"
  | OnPing "byte list"
  | OnPong "byte list"
  | HeartbeatStart
  | HeartbeatStop
  | HeartbeatPongReceived
  | SleepFor int

text \<open>
  \<^verbatim>\<open>WebSocket::Impl\<close>. The seven callback fields say whether the
  \<^verbatim>\<open>std::function\<close> is set. The last six fields are the environment: the inbound
  stream, the outcomes of the coming connection attempts, whether the transport accepts
  writes, the random bytes the mask keys are drawn from, the verdict of
  \<^verbatim>\<open>Json::parse\<close>, and the events so far.
\<close>

record Impl =
  maxMessageSize :: nat
  autoReconnect :: bool
  maxReconnectAttempts :: int
  autoPong :: bool
  parsedUrl :: ParsedUrl
  connected :: bool
  running :: bool
  reconnectAttempts :: int
  ioThread_joinable :: bool
  socket_open :: bool
  onMessageCb :: bool
  onRawMessageCb :: bool
  onErrorCb :: bool
  onConnectCb :: bool
  onDisconnectCb :: bool
  onPingCb :: bool
  onPongCb :: bool
  sendQueue :: "byte list list"
  inbound :: "rx list"
  network :: "net_attempt list"
  txOk :: bool
  rng :: "nat \<Rightarrow> byte"
  rngPos :: nat
  jsonParses :: "byte list \<Rightarrow> bool"
  trace :: "event list"

definition emit :: "event \<Rightarrow> Impl \<Rightarrow> Impl" where
  "emit e st = st\<lparr>trace := trace st @ [e]\<rparr>"

definition triggerError :: "int \<Rightarrow> Impl \<Rightarrow> Impl" where
  "triggerError code st = (if onErrorCb st then emit (OnError code) st else st)"

definition triggerConnect :: "Impl \<Rightarrow> Impl" where
  "triggerConnect st = (if onConnectCb st then emit OnConnect st else st)"

definition triggerDisconnect :: "int \<Rightarrow> Impl \<Rightarrow> Impl" where
  "triggerDisconnect code st = (if onDisconnectCb st then emit (OnDisconnect code) st else st)"

definition cleanup :: "Impl \<Rightarrow> Impl" where
  "cleanup st = st\<lparr>socket_open := False\<rparr>"

section \<open>Frame sending\<close>

text \<open>
  The byte vector \<^verbatim>\<open>frame\<close> that \<^verbatim>\<open>sendFrame\<close> builds from the opcode, the four
  mask-key bytes and the payload. \<^verbatim>\<open>payload.size()\<close> is a 64-bit \<^verbatim>\<open>size_t\<close>.
\<close>

definition frameBytes :: "byte \<Rightarrow> byte list \<Rightarrow> byte list \<Rightarrow> byte list" where
  "frameBytes opc maskKey pl =
     (let sz = (of_nat (length pl) :: 64 word) in
      [0x80 OR opc] @
      (if sz < 126 then [0x80 OR ucast sz]
       else if sz \<le> 65535 then
         [0x80 OR 126, ucast (drop_bit 8 sz AND 0xFF), ucast (sz AND 0xFF)]
       else
         (0x80 OR 127) # map (\<lambda>i. ucast (drop_bit (i * 8) sz AND 0xFF)) [7, 6, 5, 4, 3, 2, 1, 0]) @
      maskKey @
      map (\<lambda>i. pl ! i XOR maskKey ! (i mod 4)) [0..<length pl])"

text \<open>
  The length field as the specification words it, in plain arithmetic on the payload
  size: below 126 a single byte with the mask bit, up to 65535 the marker 126 and the
  size as 2 big-endian bytes, otherwise the marker 127 and the size as 8 big-endian
  bytes. It is compared with \<open>frameBytes\<close> below.
\<close>

definition big_endian :: "nat \<Rightarrow> nat \<Rightarrow> byte list" where
  "big_endian k n = map (\<lambda>i. of_nat (n div 256 ^ i mod 256)) (rev [0..<k])"

definition spec_length_field :: "nat \<Rightarrow> byte list" where
  "spec_length_field n =
     (if n < 126 then [of_nat (128 + n)]
      else if n \<le> 65535 then of_nat (128 + 126) # big_endian 2 n
      else of_nat (128 + 127) # big_endian 8 n)"

definition rawSend :: "byte list \<Rightarrow> Impl \<Rightarrow> bool \<times> Impl" where
  "rawSend bytes st = (txOk st, emit (RawSend bytes) st)"

definition nextMaskKey :: "Impl \<Rightarrow> byte list" where
  "nextMaskKey st = map (rng st) [rngPos st ..< rngPos st + 4]"

definition sendFrame :: "byte \<Rightarrow> byte list \<Rightarrow> Impl \<Rightarrow> bool \<times> Impl" where
  "sendFrame opc pl st =
     rawSend (frameBytes opc (nextMaskKey st) pl) (st\<lparr>rngPos := rngPos st + 4\<rparr>)"

definition send :: "byte list \<Rightarrow> Impl \<Rightarrow> bool \<times> Impl" where
  "send message st = (if \<not> connected st then (False, st) else sendFrame Opcode_Text message st)"

definition sendBinary :: "byte list \<Rightarrow> Impl \<Rightarrow> bool \<times> Impl" where
  "sendBinary dat st = (if \<not> connected st then (False, st) else sendFrame Opcode_Binary dat st)"

definition sendPingFrame :: "byte list \<Rightarrow> Impl \<Rightarrow> bool \<times> Impl" where
  "sendPingFrame pl st = (if \<not> connected st then (False, st) else sendFrame Opcode_Ping pl st)"

definition sendPongFrame :: "byte list \<Rightarrow> Impl \<Rightarrow> bool \<times> Impl" where
  "sendPongFrame pl st = (if \<not> connected st then (False, st) else sendFrame Opcode_Pong pl st)"

definition sendCloseFrame :: "int \<Rightarrow> Impl \<Rightarrow> Impl" where
  "sendCloseFrame code st =
     snd (sendFrame Opcode_Close
            [word_of_int ((code div 256) mod 256), word_of_int (code mod 256)] st)"

section \<open>Frame reading\<close>

record Frame =
  fin :: bool
  opcode :: byte
  masked :: bool
  payload :: "byte list"

text \<open>
  How the reading part of \<^verbatim>\<open>readFrame\<close> ends: a short or failed read
  (\<^verbatim>\<open>return false\<close> with no callback), a declared length above
  \<^verbatim>\<open>config.maxMessageSize\<close>, or the decoded header fields and payload.
\<close>

datatype recv_result = RecvFailed | RecvTooLarge | RecvFrame Frame

text \<open>The extended payload length: 2 or 8 big-endian bytes after the markers 126 and 127.\<close>

definition extendedLength :: "64 word \<Rightarrow> rx list \<Rightarrow> 64 word option \<times> rx list" where
  "extendedLength payloadLen inb =
     (if payloadLen = 126 then
        (case rawRecv 2 inb of
           (lenBytes, inb') \<Rightarrow>
             if length lenBytes \<noteq> 2 then (None, inb')
             else (Some (push_bit 8 (ucast (lenBytes ! 0)) OR ucast (lenBytes ! 1)), inb'))
      else if payloadLen = 127 then
        (case rawRecv 8 inb of
           (lenBytes, inb') \<Rightarrow>
             if length lenBytes \<noteq> 8 then (None, inb')
             else (Some (foldl (\<lambda>acc b. push_bit 8 acc OR ucast b) 0 lenBytes), inb'))
      else (Some payloadLen, inb))"

text \<open>
  The payload loop \<^verbatim>\<open>while (totalRead < payloadLen)\<close>: \<open>remaining\<close> is
  \<^verbatim>\<open>payloadLen - totalRead\<close>, \<open>buf\<close> the bytes read so far.
\<close>

function recvPayload :: "nat \<Rightarrow> rx list \<Rightarrow> byte list \<Rightarrow> byte list option \<times> rx list" where
  "recvPayload remaining inb buf =
     (if remaining = 0 then (Some buf, inb)
      else (case rawRecv remaining inb of
              (bs, inb') \<Rightarrow>
                if length bs = 0 then (None, inb')
                else recvPayload (remaining - length bs) inb' (buf @ bs)))"
  by pat_completeness auto
termination
  by (relation "measure (\<lambda>(remaining, inb, buf). remaining)") auto

declare recvPayload.simps [simp del]

definition unmask :: "byte list \<Rightarrow> byte list \<Rightarrow> byte list" where
  "unmask maskKey buffer = map (\<lambda>i. buffer ! i XOR maskKey ! (i mod 4)) [0..<length buffer]"

text \<open>
  \<^verbatim>\<open>readFrame\<close> up to the point where the opcode is dispatched: header, extended
  length, size check, mask key, payload, unmasking.
\<close>

definition readFrame_recv :: "nat \<Rightarrow> rx list \<Rightarrow> recv_result \<times> rx list" where
  "readFrame_recv maxSize inb =
     (case rawRecv 2 inb of
        (header, inb1) \<Rightarrow>
          if length header \<noteq> 2 then (RecvFailed, inb1)
          else
            (case extendedLength (ucast (header ! 1 AND 0x7F)) inb1 of
               (None, inb2) \<Rightarrow> (RecvFailed, inb2)
             | (Some payloadLen, inb2) \<Rightarrow>
                 if maxSize < unat payloadLen then (RecvTooLarge, inb2)
                 else
                   (case (if header ! 1 AND 0x80 \<noteq> 0 then rawRecv 4 inb2
                          else ([0, 0, 0, 0], inb2)) of
                      (maskKey, inb3) \<Rightarrow>
                        if length maskKey \<noteq> 4 then (RecvFailed, inb3)
                        else
                          (case recvPayload (unat payloadLen) inb3 [] of
                             (None, inb4) \<Rightarrow> (RecvFailed, inb4)
                           | (Some buffer, inb4) \<Rightarrow>
                               (RecvFrame
                                  \<lparr>fin = (header ! 0 AND 0x80 \<noteq> 0),
                                   opcode = header ! 0 AND 0x0F,
                                   masked = (header ! 1 AND 0x80 \<noteq> 0),
                                   payload = (if header ! 1 AND 0x80 \<noteq> 0
                                              then unmask maskKey buffer else buffer)\<rparr>,
                                inb4)))))"

section \<open>Handlers\<close>

definition handleMessage :: "byte list \<Rightarrow> Impl \<Rightarrow> Impl" where
  "handleMessage dat st =
     (let st1 = (if onRawMessageCb st then emit (OnRawMessage dat) st else st)
      in if jsonParses st1 dat \<and> onMessageCb st1 then emit (OnMessage dat) st1 else st1)"

definition handlePing :: "byte list \<Rightarrow> Impl \<Rightarrow> Impl" where
  "handlePing pl st =
     (let st1 = (if autoPong st then snd (sendPongFrame pl st) else st)
      in if onPingCb st1 then emit (OnPing pl) st1 else st1)"

definition handlePong :: "byte list \<Rightarrow> Impl \<Rightarrow> Impl" where
  "handlePong pl st =
     (let st1 = emit HeartbeatPongReceived st
      in if onPongCb st1 then emit (OnPong pl) st1 else st1)"

text \<open>
  The local variable \<^verbatim>\<open>code\<close> of \<^verbatim>\<open>handleClose\<close>, and the handler itself:
  the variable is computed and never read again.
\<close>

definition handleClose_code :: "byte list \<Rightarrow> int" where
  "handleClose_code pl =
     (if 2 \<le> length pl
      then uint (push_bit 8 (ucast (pl ! 0) :: 32 word) OR ucast (pl ! 1))
      else CloseCode_NoStatusReceived)"

definition handleClose :: "byte list \<Rightarrow> Impl \<Rightarrow> Impl" where
  "handleClose pl st =
     (let code = handleClose_code pl
      in st\<lparr>connected := False, running := False\<rparr>)"

text \<open>The \<^verbatim>\<open>switch (opcode)\<close> of \<^verbatim>\<open>readFrame\<close> and its return value.\<close>

definition readFrame_dispatch :: "Frame \<Rightarrow> Impl \<Rightarrow> bool \<times> Impl" where
  "readFrame_dispatch f st =
     (if opcode f = Opcode_Text \<or> opcode f = Opcode_Binary then (True, handleMessage (payload f) st)
      else if opcode f = Opcode_Close then (False, handleClose (payload f) st)
      else if opcode f = Opcode_Ping then (True, handlePing (payload f) st)
      else if opcode f = Opcode_Pong then (True, handlePong (payload f) st)
      else (True, st))"

definition readFrame :: "Impl \<Rightarrow> bool \<times> Impl" where
  "readFrame st =
     (case readFrame_recv (maxMessageSize st) (inbound st) of
        (RecvFailed, inb) \<Rightarrow> (False, st\<lparr>inbound := inb\<rparr>)
      | (RecvTooLarge, inb) \<Rightarrow> (False, triggerError ErrorCode_MessageTooLarge (st\<lparr>inbound := inb\<rparr>))
      | (RecvFrame f, inb) \<Rightarrow> readFrame_dispatch f (st\<lparr>inbound := inb\<rparr>))"

section \<open>Connection, reconnection and the I/O loop\<close>

definition next_attempt :: "Impl \<Rightarrow> net_attempt \<times> Impl" where
  "next_attempt st =
     (case network st of
        [] \<Rightarrow> (\<lparr>socketOk = False, tcpOk = False, tlsOk = False, handshakeOk = False\<rparr>, st)
      | a # rest \<Rightarrow> (a, st\<lparr>network := rest\<rparr>))"

text \<open>
  \<^verbatim>\<open>connect()\<close>. After a successful handshake the flags are set, the attempt
  counter is reset and the I/O thread is started by move-assigning a new
  \<^verbatim>\<open>std::thread\<close> to \<^verbatim>\<open>ioThread\<close>; the C++ library calls
  \<^verbatim>\<open>std::terminate\<close> when the assigned-to thread object is still joinable.
\<close>

definition connect :: "Impl \<Rightarrow> exn + bool \<times> Impl" where
  "connect st =
     (if \<not> valid (parsedUrl st) then Inr (False, triggerError ErrorCode_InvalidUrl st)
      else
        (case next_attempt st of
           (a, st1) \<Rightarrow>
             if \<not> socketOk a then Inr (False, triggerError ErrorCode_ConnectionFailed st1)
             else if \<not> tcpOk a then
               Inr (False, cleanup (triggerError ErrorCode_ConnectionFailed (st1\<lparr>socket_open := True\<rparr>)))
             else if secure (parsedUrl st1) \<and> \<not> tlsOk a then
               Inr (False, cleanup (triggerError ErrorCode_TlsError (st1\<lparr>socket_open := True\<rparr>)))
             else if \<not> handshakeOk a then
               Inr (False, cleanup (triggerError ErrorCode_HandshakeFailed (st1\<lparr>socket_open := True\<rparr>)))
             else if ioThread_joinable st1 then Inl StdTerminate
             else
               Inr (True,
                    triggerConnect
                      (emit HeartbeatStart
                         (st1\<lparr>socket_open := True, connected := True, running := True,
                              reconnectAttempts := 0, ioThread_joinable := True\<rparr>)))))"

definition handleDisconnect :: "Impl \<Rightarrow> exn + Impl" where
  "handleDisconnect st0 =
     (let st = st0\<lparr>connected := False\<rparr> in
      if autoReconnect st \<and> reconnectAttempts st < maxReconnectAttempts st then
        (let st1 = st\<lparr>reconnectAttempts := reconnectAttempts st + 1\<rparr>;
             st2 = emit (SleepFor (1 * reconnectAttempts st1)) st1;
             st3 = cleanup st2
         in case connect st3 of
              Inl e \<Rightarrow> Inl e
            | Inr (ok, st4) \<Rightarrow>
                if ok then Inr st4
                else Inr (triggerDisconnect CloseCode_AbnormalClosure (st4\<lparr>running := False\<rparr>)))
      else Inr (triggerDisconnect CloseCode_AbnormalClosure (st\<lparr>running := False\<rparr>)))"

text \<open>Draining the asynchronous queue: every queued payload goes through \<^verbatim>\<open>send\<close>.\<close>

definition drainSendQueue :: "Impl \<Rightarrow> Impl" where
  "drainSendQueue st = foldl (\<lambda>s msg. snd (send msg s)) (st\<lparr>sendQueue := []\<rparr>) (sendQueue st)"

text \<open>
  \<^verbatim>\<open>ioLoop\<close>. The loop ends when \<^verbatim>\<open>running\<close> is false or a frame read
  returns false; while the connection stays up it does not end, which is the value
  \<open>None\<close>.
\<close>

partial_function (option) ioLoop :: "Impl \<Rightarrow> (exn + Impl) option" where
  "ioLoop st =
     (if \<not> running st then Some (Inr st)
      else
        (case waitForData (inbound (drainSendQueue st)) of
           (readable, inb) \<Rightarrow>
             if \<not> readable then ioLoop ((drainSendQueue st)\<lparr>inbound := inb\<rparr>)
             else
               (case readFrame ((drainSendQueue st)\<lparr>inbound := inb\<rparr>) of
                  (ok, st3) \<Rightarrow>
                    if ok then ioLoop st3
                    else if connected st3 then Some (handleDisconnect st3)
                    else Some (Inr st3))))"

text \<open>
  \<^verbatim>\<open>disconnect(code)\<close>, called by the user once the I/O loop can end: it joins the
  I/O thread.
\<close>

definition disconnect :: "int \<Rightarrow> Impl \<Rightarrow> Impl" where
  "disconnect code st =
     (let wasConnected = connected st;
          st1 = emit HeartbeatStop (st\<lparr>connected := False, running := False\<rparr>);
          st2 = (if wasConnected then sendCloseFrame code st1 else st1);
          st3 = cleanup (st2\<lparr>ioThread_joinable := False\<rparr>)
      in if wasConnected then triggerDisconnect code st3 else st3)"

text \<open>
  The constructor \<^verbatim>\<open>Impl(WebSocketConfig cfg)\<close> parses the URL; an exception of
  \<^verbatim>\<open>parseUrl\<close> leaves the constructor. \<open>init\<close> gives the other fields.
  \<open>WebSocket_connect\<close> is the user's sequence \<^verbatim>\<open>WebSocket ws({.url = u}); ws.connect();\<close>.
\<close>

definition Impl_ctor :: "string \<Rightarrow> Impl \<Rightarrow> exn + Impl" where
  "Impl_ctor u init = (case parseUrl u of Inl e \<Rightarrow> Inl e | Inr p \<Rightarrow> Inr (init\<lparr>parsedUrl := p\<rparr>))"

definition WebSocket_connect :: "string \<Rightarrow> Impl \<Rightarrow> exn + bool \<times> Impl" where
  "WebSocket_connect u init = (case Impl_ctor u init of Inl e \<Rightarrow> Inl e | Inr st \<Rightarrow> connect st)"

text \<open>
  A fresh session with the defaults of \<^verbatim>\<open>WebSocketConfig\<close>, every callback set,
  a transport that accepts writes, mask keys \<open>0, 1, 2, \<dots>\<close> and no inbound data.
\<close>

definition fresh :: Impl where
  "fresh =
     \<lparr>maxMessageSize = 16 * 1024 * 1024, autoReconnect = True, maxReconnectAttempts = 5,
      autoPong = True,
      parsedUrl = \<lparr>secure = False, host = ''echo.example'', port = 80, path = ''/''\<rparr>,
      connected = False, running = False, reconnectAttempts = 0,
      ioThread_joinable = False, socket_open = False,
      onMessageCb = True, onRawMessageCb = True, onErrorCb = True, onConnectCb = True,
      onDisconnectCb = True, onPingCb = True, onPongCb = True,
      sendQueue = [], inbound = [], network = [], txOk = True,
      rng = (\<lambda>i. of_nat i), rngPos = 0, jsonParses = (\<lambda>b. False), trace = []\<rparr>"

text \<open>
  The session once \<^verbatim>\<open>connect()\<close> has succeeded and the I/O thread runs; the events
  are recorded from this point on.
\<close>

definition opened :: Impl where
  "opened = fresh\<lparr>connected := True, running := True, ioThread_joinable := True,
                  socket_open := True\<rparr>"

text \<open>
  The same session as the I/O thread finds it when \<^verbatim>\<open>disconnect()\<close> has begun on
  the user's thread: its first statement clears \<^verbatim>\<open>connected\<close>, and the I/O thread
  is joined only later, so a frame that is being read at that moment is still handled.
\<close>

definition closing :: Impl where
  "closing = opened\<lparr>connected := False\<rparr>"

section \<open>Heartbeat manager\<close>

text \<open>
  The part of \<^verbatim>\<open>HeartbeatManager\<close> that decides whether a call returns: the mode,
  the \<^verbatim>\<open>running_\<close> flag, whether the timer thread exists, and whether the
  calling thread holds the non-recursive \<^verbatim>\<open>std::mutex mutex_\<close>. An operation
  returns \<open>None\<close> when the call never returns. Locking a \<^verbatim>\<open>std::mutex\<close> that the
  calling thread already holds is undefined behaviour in C++; on the usual implementations
  the thread waits for itself for ever, and nobody else can release the mutex: this is
  the behaviour modelled. The timer
  thread takes the mutex in every cycle and on waking from the condition variable, so it
  can only end, and be joined, while the caller does not hold the mutex and
  \<^verbatim>\<open>running_\<close> is false.
\<close>

datatype PingMode = Disabled | Opcode | TextMessage

record HeartbeatManager =
  hb_mode :: PingMode
  hb_running :: bool
  hb_timerThread :: bool
  hb_mutex_held :: bool

definition lock_guard :: "HeartbeatManager \<Rightarrow> HeartbeatManager option" where
  "lock_guard h = (if hb_mutex_held h then None else Some (h\<lparr>hb_mutex_held := True\<rparr>))"

definition unlock :: "HeartbeatManager \<Rightarrow> HeartbeatManager" where
  "unlock h = h\<lparr>hb_mutex_held := False\<rparr>"

definition join_timerThread :: "HeartbeatManager \<Rightarrow> HeartbeatManager option" where
  "join_timerThread h =
     (if \<not> hb_timerThread h then Some h
      else if hb_mutex_held h \<or> hb_running h then None
      else Some (h\<lparr>hb_timerThread := False\<rparr>))"

definition hb_start :: "HeartbeatManager \<Rightarrow> HeartbeatManager option" where
  "hb_start h =
     (case lock_guard h of
        None \<Rightarrow> None
      | Some h1 \<Rightarrow>
          if hb_running h1 then Some (unlock h1)
          else if hb_mode h1 = Disabled then Some (unlock h1)
          else Some (unlock (h1\<lparr>hb_running := True, hb_timerThread := True\<rparr>)))"

definition hb_stop :: "HeartbeatManager \<Rightarrow> HeartbeatManager option" where
  "hb_stop h =
     (case lock_guard h of
        None \<Rightarrow> None
      | Some h1 \<Rightarrow>
          if \<not> hb_running h1 then Some (unlock h1)
          else join_timerThread (unlock (h1\<lparr>hb_running := False\<rparr>)))"

definition setMode :: "PingMode \<Rightarrow> HeartbeatManager \<Rightarrow> HeartbeatManager option" where
  "setMode mode h =
     (case lock_guard h of
        None \<Rightarrow> None
      | Some h1 \<Rightarrow>
          if mode = Disabled then
            (case hb_stop (h1\<lparr>hb_mode := mode\<rparr>) of
               None \<Rightarrow> None
             | Some h2 \<Rightarrow> Some (unlock h2))
          else Some (unlock (h1\<lparr>hb_mode := mode\<rparr>)))"

section \<open>Bytes and lengths on the wire\<close>

text \<open>
  Facts about the header bytes: the flag bit \<open>0x80\<close>, the seven-bit length, and the
  big-endian extended lengths as \<^verbatim>\<open>sendFrame\<close> writes and \<^verbatim>\<open>readFrame\<close>
  reassembles them.
\<close>

lemma xFF: "(0xFF :: 'a::len word) = mask 8" by (simp add: mask_eq_exp_minus_1)
lemma x7F: "(0x7F :: 'a::len word) = mask 7" by (simp add: mask_eq_exp_minus_1)

lemma small_take_bit16: "(sz :: 64 word) \<le> 65535 \<Longrightarrow> take_bit 16 sz = sz"
proof -
  assume "sz \<le> 65535"
  then have "unat sz \<le> 65535" by (simp add: word_le_nat_alt)
  then have "sz < 2 ^ 16" by (simp add: word_less_nat_alt)
  then have "sz AND mask 16 = sz" by (rule less_mask_eq)
  then show ?thesis by (simp add: take_bit_eq_mask)
qed

lemma small_take_bit7: "(sz :: 64 word) < 126 \<Longrightarrow> take_bit 7 sz = sz"
proof -
  assume "sz < 126"
  then have "unat sz < 126" by (simp add: word_less_nat_alt)
  then have "sz < 2 ^ 7" by (simp add: word_less_nat_alt)
  then have "sz AND mask 7 = sz" by (rule less_mask_eq)
  then show ?thesis by (simp add: take_bit_eq_mask)
qed

lemma len16: 
  assumes "sz \<le> 65535"
  shows "push_bit 8 (ucast (ucast (drop_bit 8 sz AND 0xFF) :: byte)) OR ucast (ucast (sz AND 0xFF) :: byte) = (sz :: 64 word)"
proof -
  have "push_bit 8 (ucast (ucast (drop_bit 8 sz AND mask 8) :: byte)) OR ucast (ucast (sz AND mask 8) :: byte) = take_bit 16 sz"
    by (rule bit_eqI) (auto simp add: bit_simps)
  then show ?thesis using small_take_bit16[OF assms] by (simp only: xFF)
qed

lemma be_step:
  "push_bit 8 (drop_bit (k + 8) w) OR ucast (ucast (drop_bit k w AND mask 8) :: byte) = drop_bit k (w :: 64 word)"
proof (rule bit_eqI)
  fix n
  assume "possible_bit TYPE(64 word) n"
  then have n: "n < 64" by (simp add: possible_bit_word)
  show "bit (push_bit 8 (drop_bit (k + 8) w) OR ucast (ucast (drop_bit k w AND mask 8) :: byte)) n
        = bit (drop_bit k w) n"
  proof (cases "n < 8")
    case True
    then show ?thesis using n by (simp add: bit_simps)
  next
    case False
    then have "k + 8 + (n - 8) = k + n" by simp
    then show ?thesis using n False by (simp add: bit_simps)
  qed
qed

lemma len64: "foldl (\<lambda>acc b. push_bit 8 acc OR ucast b) 0
   (map (\<lambda>i. (ucast (drop_bit (i * 8) sz AND 0xFF) :: byte)) [7, 6, 5, 4, 3, 2, 1, 0::nat]) = (sz :: 64 word)"
proof -
  have z: "drop_bit 64 sz = 0" by (rule bit_eqI) (auto simp add: bit_simps dest: bit_imp_le_length)
  have s7: "ucast (ucast (drop_bit 56 sz AND mask 8) :: byte) = drop_bit 56 sz"
    using be_step[of 56 sz] by (simp add: z)
  have s0: "push_bit 8 (drop_bit 8 sz) OR ucast (ucast (sz AND mask 8) :: byte) = sz"
    using be_step[of 0 sz] by simp
  show ?thesis
    unfolding xFF
    using be_step[of 48 sz] be_step[of 40 sz] be_step[of 32 sz] be_step[of 24 sz]
      be_step[of 16 sz] be_step[of 8 sz]
    by (simp add: s7 s0)
qed

lemma drop_flag: "((0x80 :: byte) OR x) AND 0x7F = x AND 0x7F"
  by (simp add: bit.conj_disj_distrib2)

lemma drop_fin: "((0x80 :: byte) OR x) AND 0x0F = x AND 0x0F"
  by (simp add: bit.conj_disj_distrib2)

lemma flag_set: "((0x80 :: byte) OR x) AND 0x80 \<noteq> 0"
proof -
  have "((0x80 :: byte) OR x) AND 0x80 = 0x80"
    by (simp add: bit.conj_disj_distrib2 word_ao_absorbs)
  then show ?thesis by simp
qed

lemma len7:
  assumes "sz < 126"
  shows "(ucast (((0x80 :: byte) OR ucast sz) AND 0x7F) :: 64 word) = sz"
proof -
  have "(ucast ((ucast sz :: byte) AND mask 7) :: 64 word) = take_bit 7 sz"
    by (rule bit_eqI) (auto simp add: bit_simps)
  moreover have "((0x80 :: byte) OR ucast sz) AND 0x7F = ucast sz AND mask 7"
    by (subst drop_flag) (simp only: x7F)
  ultimately show ?thesis using small_take_bit7[OF assms] by simp
qed

lemma unmask_mask:
  "unmask k (map (\<lambda>i. pl ! i XOR k ! (i mod 4)) [0..<length pl]) = pl"
  by (rule nth_equalityI) (simp_all add: unmask_def xor.assoc)

lemma unat_size: "n < 2 ^ 64 \<Longrightarrow> unat (of_nat n :: 64 word) = n"
  by (simp add: unat_of_nat)

lemma size_less_iff: "n < 2 ^ 64 \<Longrightarrow> ((of_nat n :: 64 word) < 126) = (n < 126)"
  by (simp add: word_less_nat_alt unat_of_nat)

lemma size_le_iff: "n < 2 ^ 64 \<Longrightarrow> ((of_nat n :: 64 word) \<le> 65535) = (n \<le> 65535)"
  by (simp add: word_le_nat_alt unat_of_nat)

text \<open>
  Reading from a stream that arrives in segments, with pauses between them. A read of \<open>n\<close> bytes returns the
  next \<open>n\<close> bytes of the stream when no segment ends inside them; what is left is
  again a sequence of non-empty segments, whose boundaries are the old ones moved by
  \<open>n\<close>. The predicate \<open>Q\<close> says where boundaries may lie.
\<close>

lemma rawRecv_quiet: "rawRecv n (replicate d Quiet @ inb) = rawRecv n inb"
  by (induction d) simp_all

lemma rawRecv_arriving:
  "rawRecv n (arriving ((d, c) # segs) @ rest) =
     (take n c, if n < length c then arriving ((0, drop n c) # segs) @ rest
                else arriving segs @ rest)"
  by (simp add: arriving_def rawRecv_quiet)

lemma rawRecv_field:
  assumes ne: "[] \<notin> snd ` set segs"
    and n: "0 < n" "n \<le> length (concat (map snd segs))"
    and w: "\<forall>k\<le>length segs. Q (length (concat (map snd (take k segs))))"
    and q: "\<And>b. 0 < b \<Longrightarrow> b < n \<Longrightarrow> \<not> Q b"
  obtains segs' where
    "rawRecv n (arriving segs @ rest) = (take n (concat (map snd segs)), arriving segs' @ rest)"
    "[] \<notin> snd ` set segs'"
    "concat (map snd segs') = drop n (concat (map snd segs))"
    "\<forall>k\<le>length segs'. length (concat (map snd (take k segs'))) = 0 \<or>
        Q (length (concat (map snd (take k segs'))) + n)"
proof -
  from n obtain d c cs where s: "segs = (d, c) # cs" by (cases segs) auto
  have c: "c \<noteq> []" using ne s by auto
  have "Q (length c)" using w[rule_format, of 1] s by simp
  then have le: "n \<le> length c" using q[of "length c"] c by (cases "length c < n") auto
  have off: "Q (length c + length (concat (map snd (take j cs))))" if "j \<le> length cs" for j
    using w[rule_format, of "Suc j"] that s by simp
  show thesis
  proof (cases "n < length c")
    case True
    show thesis
    proof (rule that[of "(0, drop n c) # cs"])
      show "rawRecv n (arriving segs @ rest) =
              (take n (concat (map snd segs)), arriving ((0, drop n c) # cs) @ rest)"
        using True by (simp add: s rawRecv_arriving)
      show "[] \<notin> snd ` set ((0, drop n c) # cs)" using True ne s by auto
      show "concat (map snd ((0, drop n c) # cs)) = drop n (concat (map snd segs))"
        using True s by simp
      show "\<forall>k\<le>length ((0, drop n c) # cs).
              length (concat (map snd (take k ((0, drop n c) # cs)))) = 0 \<or>
              Q (length (concat (map snd (take k ((0, drop n c) # cs)))) + n)"
      proof (intro allI impI)
        fix k
        assume k: "k \<le> length ((0 :: nat, drop n c) # cs)"
        show "length (concat (map snd (take k ((0, drop n c) # cs)))) = 0 \<or>
              Q (length (concat (map snd (take k ((0, drop n c) # cs)))) + n)"
        proof (cases k)
          case 0
          then show ?thesis by simp
        next
          case (Suc j)
          then have "j \<le> length cs" using k by simp
          then show ?thesis using off[of j] True Suc by simp
        qed
      qed
    qed
  next
    case False
    then have eq: "length c = n" using le by simp
    show thesis
    proof (rule that[of cs])
      show "rawRecv n (arriving segs @ rest) = (take n (concat (map snd segs)), arriving cs @ rest)"
        using eq by (simp add: s rawRecv_arriving)
      show "[] \<notin> snd ` set cs" using ne s by auto
      show "concat (map snd cs) = drop n (concat (map snd segs))" using eq s by simp
      show "\<forall>k\<le>length cs. length (concat (map snd (take k cs))) = 0 \<or>
              Q (length (concat (map snd (take k cs))) + n)"
        using off eq by (simp add: add.commute)
    qed
  qed
qed

text \<open>
  The payload loop collects the payload from any number of non-empty segments.
\<close>

lemma recvPayload_segments:
  "[] \<notin> snd ` set segs \<Longrightarrow>
   recvPayload (length (concat (map snd segs))) (arriving segs @ rest) buf =
     (Some (buf @ concat (map snd segs)), rest)"
proof (induction segs arbitrary: buf)
  case Nil
  show ?case by (simp add: recvPayload.simps arriving_def)
next
  case (Cons p cs)
  obtain d c where p: "p = (d, c)" by (cases p)
  have c: "c \<noteq> []" and cs: "[] \<notin> snd ` set cs" using Cons.prems p by auto
  show ?case
    using c Cons.IH[OF cs, of "buf @ c"]
    by (subst recvPayload.simps) (simp add: p rawRecv_arriving)
qed

text \<open>
  A masked frame whose header, extended length and mask key each lie within one segment
  is read back, however the payload is split.
\<close>

lemma recv_segments:
  assumes k: "length key = 4"
    and mk: "h1 AND 0x80 \<noteq> 0"
    and cat: "concat (map snd segs) = [h0, h1] @ ext @ key @ body"
    and ne: "[] \<notin> snd ` set segs"
    and whole: "\<forall>k\<le>length segs.
        length (concat (map snd (take k segs))) \<in> {0, 2, 2 + length ext} \<or>
        6 + length ext \<le> length (concat (map snd (take k segs)))"
    and el: "\<And>inb inb'. (if ext = [] then inb' = inb else rawRecv (length ext) inb = (ext, inb')) \<Longrightarrow>
               extendedLength (ucast (h1 AND 0x7F)) inb = (Some sz, inb')"
    and u: "unat sz = length body"
    and m: "length body \<le> maxSize"
  shows "readFrame_recv maxSize (arriving segs @ rest) =
           (RecvFrame \<lparr>fin = (h0 AND 0x80 \<noteq> 0), opcode = h0 AND 0x0F, masked = True,
                       payload = unmask key body\<rparr>, rest)"
proof -
  define e where "e = length ext"
  define Q0 where "Q0 b = (b \<in> {0, 2, 2 + e} \<or> 6 + e \<le> b)" for b
  define Q1 where "Q1 b = (b = 0 \<or> Q0 (b + 2))" for b
  define Q2 where "Q2 b = (b = 0 \<or> Q1 (b + e))" for b
  have w0: "\<forall>k\<le>length segs. Q0 (length (concat (map snd (take k segs))))"
    using whole by (simp add: Q0_def e_def)
  obtain segs1 where r1: "rawRecv 2 (arriving segs @ rest) = (take 2 (concat (map snd segs)), arriving segs1 @ rest)"
    and ne1: "[] \<notin> snd ` set segs1" and cat1: "concat (map snd segs1) = drop 2 (concat (map snd segs))"
    and w1: "\<forall>k\<le>length segs1. Q1 (length (concat (map snd (take k segs1))))"
  proof (rule rawRecv_field[OF ne _ _ w0, of 2 rest])
    show "0 < (2::nat)" by simp
    show "2 \<le> length (concat (map snd segs))" by (simp add: cat)
    show "\<not> Q0 b" if "0 < b" "b < 2" for b using that by (auto simp add: Q0_def)
  qed (auto simp add: Q1_def)
  have h: "take 2 (concat (map snd segs)) = [h0, h1]" by (simp add: cat)
  have c1: "concat (map snd segs1) = ext @ key @ body" by (simp add: cat1 cat)
  obtain segs2 where r2: "if ext = [] then segs2 = segs1
                          else rawRecv (length ext) (arriving segs1 @ rest) = (ext, arriving segs2 @ rest)"
    and ne2: "[] \<notin> snd ` set segs2" and c2: "concat (map snd segs2) = key @ body"
    and w2: "\<forall>k\<le>length segs2. Q2 (length (concat (map snd (take k segs2))))"
  proof (cases "ext = []")
    case True
    show thesis
    proof (rule that[of segs1])
      show "if ext = [] then segs1 = segs1
            else rawRecv (length ext) (arriving segs1 @ rest) = (ext, arriving segs1 @ rest)"
        using True by simp
      show "[] \<notin> snd ` set segs1" by (rule ne1)
      show "concat (map snd segs1) = key @ body" using c1 True by simp
      show "\<forall>k\<le>length segs1. Q2 (length (concat (map snd (take k segs1))))"
        using w1 True by (simp add: Q2_def e_def)
    qed
  next
    case False
    obtain s2 where a: "rawRecv (length ext) (arriving segs1 @ rest) =
                          (take (length ext) (concat (map snd segs1)), arriving s2 @ rest)"
      and b: "[] \<notin> snd ` set s2" and c: "concat (map snd s2) = drop (length ext) (concat (map snd segs1))"
      and d: "\<forall>k\<le>length s2. length (concat (map snd (take k s2))) = 0 \<or> Q1 (length (concat (map snd (take k s2))) + length ext)"
    proof (rule rawRecv_field[OF ne1 _ _ w1, of "length ext" rest])
      show "0 < length ext" using False by simp
      show "length ext \<le> length (concat (map snd segs1))" by (simp add: c1)
      show "\<not> Q1 b" if "0 < b" "b < length ext" for b
        using that by (auto simp add: Q1_def Q0_def e_def)
    qed auto
    show thesis
    proof (rule that[of s2])
      show "if ext = [] then s2 = segs1
            else rawRecv (length ext) (arriving segs1 @ rest) = (ext, arriving s2 @ rest)"
        using False a by (simp add: c1)
      show "[] \<notin> snd ` set s2" by (rule b)
      show "concat (map snd s2) = key @ body" using c by (simp add: c1)
      show "\<forall>k\<le>length s2. Q2 (length (concat (map snd (take k s2))))"
        using d by (simp add: Q2_def e_def)
    qed
  qed
  have x: "extendedLength (ucast (h1 AND 0x7F)) (arriving segs1 @ rest) = (Some sz, arriving segs2 @ rest)"
    using r2 el[of "arriving segs2 @ rest" "arriving segs1 @ rest"] by (auto split: if_splits)
  obtain segs3 where r3: "rawRecv 4 (arriving segs2 @ rest) = (take 4 (concat (map snd segs2)), arriving segs3 @ rest)"
    and ne3: "[] \<notin> snd ` set segs3" and cat3: "concat (map snd segs3) = drop 4 (concat (map snd segs2))"
  proof (rule rawRecv_field[OF ne2 _ _ w2, of 4 rest])
    show "0 < (4::nat)" by simp
    show "4 \<le> length (concat (map snd segs2))" by (simp add: c2 k)
    show "\<not> Q2 b" if "0 < b" "b < 4" for b
      using that by (auto simp add: Q2_def Q1_def Q0_def)
  qed auto
  have k4: "take 4 (concat (map snd segs2)) = key" by (simp add: c2 k)
  have c3: "concat (map snd segs3) = body" by (simp add: cat3 c2 k)
  have p: "recvPayload (length body) (arriving segs3 @ rest) [] = (Some body, rest)"
    using recvPayload_segments[OF ne3, of rest "[]"] by (simp add: c3)
  show ?thesis
    unfolding readFrame_recv_def r1 h
    using mk m by (simp add: x u r3 k4 k p del: rawRecv.simps)
qed

lemma frameBytes_length:
  "length pl < 2 ^ 64 \<Longrightarrow>
   length (frameBytes opc key pl) = 1 + length (spec_length_field (length pl)) + length key + length pl"
  by (simp add: frameBytes_def spec_length_field_def big_endian_def Let_def size_less_iff size_le_iff)

lemma frame_roundtrip_segments:
  assumes k: "length key = 4" and n: "length pl < 2 ^ 64" and m: "length pl \<le> maxSize"
    and cat: "concat (map snd segs) = frameBytes opc key pl"
    and ne: "[] \<notin> snd ` set segs"
    and whole: "\<forall>k\<le>length segs.
        length (concat (map snd (take k segs))) \<in> {0, 2, 1 + length (spec_length_field (length pl))} \<or>
        5 + length (spec_length_field (length pl)) \<le> length (concat (map snd (take k segs)))"
  shows "readFrame_recv maxSize (arriving segs @ rest) =
           (RecvFrame \<lparr>fin = True, opcode = opc AND 0x0F, masked = True, payload = pl\<rparr>, rest)"
proof -
  define sz :: "64 word" where "sz = of_nat (length pl)"
  define body where "body = map (\<lambda>i. pl ! i XOR key ! (i mod 4)) [0..<length pl]"
  have u: "unat sz = length body" unfolding sz_def body_def using n by (simp add: unat_size)
  have lb: "length body \<le> maxSize" using m by (simp add: body_def)
  have um: "unmask key body = pl" unfolding body_def by (rule unmask_mask)
  consider (short) "sz < 126" | (mid) "\<not> sz < 126" "sz \<le> 65535" | (long) "\<not> sz < 126" "\<not> sz \<le> 65535"
    by blast
  then show ?thesis
  proof cases
    case short
    have f: "concat (map snd segs) = [0x80 OR opc, 0x80 OR ucast sz] @ [] @ key @ body"
      using short by (simp add: cat frameBytes_def sz_def body_def Let_def)
    have l: "length (spec_length_field (length pl)) = 1"
      using short size_less_iff[OF n] by (simp add: spec_length_field_def sz_def)
    have w: "\<forall>k\<le>length segs.
        length (concat (map snd (take k segs))) \<in> {0, 2, 2 + length ([] :: byte list)} \<or>
        6 + length ([] :: byte list) \<le> length (concat (map snd (take k segs)))"
      using whole unfolding l by auto
    have ne126: "sz \<noteq> 126" "sz \<noteq> 127" using short by auto
    have e: "extendedLength (ucast ((0x80 OR ucast sz :: byte) AND 0x7F)) inb = (Some sz, inb')"
      if "if ([] :: byte list) = [] then inb' = inb else rawRecv (length ([] :: byte list)) inb = ([], inb')"
      for inb inb'
      using that by (simp add: len7[OF short] extendedLength_def ne126)
    show ?thesis
      using recv_segments[OF k flag_set f ne w e u lb, of rest]
      by (simp add: flag_set drop_fin um)
  next
    case mid
    let ?ext = "[ucast (drop_bit 8 sz AND 0xFF), ucast (sz AND 0xFF)] :: byte list"
    have f: "concat (map snd segs) = [0x80 OR opc, 0x80 OR 126] @ ?ext @ key @ body"
      using mid by (simp add: cat frameBytes_def sz_def body_def Let_def)
    have l: "length (spec_length_field (length pl)) = 3"
      using mid size_less_iff[OF n] size_le_iff[OF n]
      by (simp add: spec_length_field_def sz_def big_endian_def)
    have w: "\<forall>k\<le>length segs.
        length (concat (map snd (take k segs))) \<in> {0, 2, 2 + length ?ext} \<or>
        6 + length ?ext \<le> length (concat (map snd (take k segs)))"
      using whole unfolding l by auto
    have len: "length ?ext = 2" by simp
    have e: "extendedLength (ucast ((0x80 OR 126 :: byte) AND 0x7F)) inb = (Some sz, inb')"
      if t: "if ?ext = [] then inb' = inb else rawRecv (length ?ext) inb = (?ext, inb')"
      for inb inb'
    proof -
      have r: "rawRecv 2 inb = (?ext, inb')" using t unfolding len by simp
      show ?thesis unfolding extendedLength_def using len16[OF mid(2)] by (simp add: r)
    qed
    show ?thesis
      using recv_segments[OF k flag_set f ne w e u lb, of rest]
      by (simp add: flag_set drop_fin um)
  next
    case long
    let ?ext = "map (\<lambda>i. (ucast (drop_bit (i * 8) sz AND 0xFF) :: byte)) [7, 6, 5, 4, 3, 2, 1, 0::nat]"
    have f: "concat (map snd segs) = [0x80 OR opc, 0x80 OR 127] @ ?ext @ key @ body"
      using long by (simp add: cat frameBytes_def sz_def body_def Let_def)
    have l: "length (spec_length_field (length pl)) = 9"
      using long size_less_iff[OF n] size_le_iff[OF n]
      by (simp add: spec_length_field_def sz_def big_endian_def)
    have w: "\<forall>k\<le>length segs.
        length (concat (map snd (take k segs))) \<in> {0, 2, 2 + length ?ext} \<or>
        6 + length ?ext \<le> length (concat (map snd (take k segs)))"
      using whole unfolding l by auto
    have len: "length ?ext = 8" by simp
    have e: "extendedLength (ucast ((0x80 OR 127 :: byte) AND 0x7F)) inb = (Some sz, inb')"
      if t: "if ?ext = [] then inb' = inb else rawRecv (length ?ext) inb = (?ext, inb')"
      for inb inb'
    proof -
      have r: "rawRecv 8 inb = (?ext, inb')" using t unfolding len by simp
      show ?thesis unfolding extendedLength_def using len64[of sz] by (simp add: r)
    qed
    show ?thesis
      using recv_segments[OF k flag_set f ne w e u lb, of rest]
      by (simp add: flag_set drop_fin um)
  qed
qed


text \<open>The frame in a single segment.\<close>

lemma frame_roundtrip:
  assumes k: "length key = 4" and n: "length pl < 2 ^ 64" and m: "length pl \<le> maxSize"
  shows "readFrame_recv maxSize (Bytes (frameBytes opc key pl) # rest) =
           (RecvFrame \<lparr>fin = True, opcode = opc AND 0x0F, masked = True, payload = pl\<rparr>, rest)"
proof -
  let ?segs = "[(0 :: nat, frameBytes opc key pl)]"
  have ne: "[] \<notin> snd ` set ?segs"
    using frameBytes_length[OF n, of opc key] by auto
  have w: "\<forall>j\<le>length ?segs.
        length (concat (map snd (take j ?segs))) \<in> {0, 2, 1 + length (spec_length_field (length pl))} \<or>
        5 + length (spec_length_field (length pl)) \<le> length (concat (map snd (take j ?segs)))"
  proof (intro allI impI)
    fix j
    assume "j \<le> length ?segs"
    then consider "j = 0" | "j = 1" by fastforce
    then show "length (concat (map snd (take j ?segs))) \<in> {0, 2, 1 + length (spec_length_field (length pl))} \<or>
        5 + length (spec_length_field (length pl)) \<le> length (concat (map snd (take j ?segs)))"
      using frameBytes_length[OF n, of opc key] k by cases simp_all
  qed
  show ?thesis
    using frame_roundtrip_segments[OF k n m _ ne w, of opc rest] by (simp add: arriving_def)
qed

section \<open>Frames, handlers and the I/O loop\<close>

lemma length_nextMaskKey: "length (nextMaskKey st) = 4"
  by (simp add: nextMaskKey_def)

lemma sendFrame_eq:
  "sendFrame opc pl st =
     (txOk st, st\<lparr>rngPos := rngPos st + 4,
                  trace := trace st @ [RawSend (frameBytes opc (nextMaskKey st) pl)]\<rparr>)"
  by (simp add: sendFrame_def rawSend_def emit_def)

lemma handlePing_eq:
  "autoPong st \<Longrightarrow> connected st \<Longrightarrow>
   handlePing pl st =
     st\<lparr>rngPos := rngPos st + 4,
        trace := trace st @ RawSend (frameBytes Opcode_Pong (nextMaskKey st) pl) #
                  (if onPingCb st then [OnPing pl] else [])\<rparr>"
  by (simp add: handlePing_def sendPongFrame_def sendFrame_eq emit_def)

lemma handleMessage_trace:
  "trace (handleMessage d st) =
     trace st @ (if onRawMessageCb st then [OnRawMessage d] else []) @
       (if jsonParses st d \<and> onMessageCb st then [OnMessage d] else [])"
  by (simp add: handleMessage_def emit_def Let_def)

lemma handleClose_eq: "handleClose pl st = st\<lparr>connected := False, running := False\<rparr>"
  by (simp add: handleClose_def)

lemma readFrame_frame:
  "readFrame_recv (maxMessageSize st) (inbound st) = (RecvFrame f, inb) \<Longrightarrow>
   readFrame st = readFrame_dispatch f (st\<lparr>inbound := inb\<rparr>)"
  by (simp add: readFrame_def)

lemma opcodes_distinct:
  "Opcode_Ping \<noteq> Opcode_Text" "Opcode_Ping \<noteq> Opcode_Binary" "Opcode_Ping \<noteq> Opcode_Close"
  "Opcode_Pong \<noteq> Opcode_Text" "Opcode_Pong \<noteq> Opcode_Binary" "Opcode_Pong \<noteq> Opcode_Close"
  "Opcode_Pong \<noteq> Opcode_Ping" "Opcode_Close \<noteq> Opcode_Text" "Opcode_Close \<noteq> Opcode_Binary"
  "Opcode_Continuation \<noteq> Opcode_Text" "Opcode_Continuation \<noteq> Opcode_Binary"
  "Opcode_Continuation \<noteq> Opcode_Close" "Opcode_Continuation \<noteq> Opcode_Ping"
  "Opcode_Continuation \<noteq> Opcode_Pong" "Opcode_Text \<noteq> Opcode_Binary"
  by (simp_all add: Opcode_Ping_def Opcode_Text_def Opcode_Binary_def Opcode_Close_def
      Opcode_Pong_def Opcode_Continuation_def)

lemma pong_nibble: "Opcode_Pong AND 0x0F = Opcode_Pong"
  by (simp add: Opcode_Pong_def)

subsection \<open>Answering a Ping\<close>

text \<open>
  The I/O thread itself does not clear the flags while its loop goes on: draining the
  send queue and reading a frame that lets the loop continue change neither
  \<^verbatim>\<open>connected\<close> nor \<^verbatim>\<open>running\<close>. The user's thread can:
  \<^verbatim>\<open>disconnect()\<close> clears both before it joins the I/O thread, so a Ping can be
  handled with \<^verbatim>\<open>connected\<close> already false.
\<close>

lemma sendFrame_keeps_flags:
  "connected (snd (sendFrame opc pl st)) = connected st \<and>
   running (snd (sendFrame opc pl st)) = running st"
  by (simp add: sendFrame_eq)

lemma readFrame_true_keeps_flags:
  assumes "readFrame st = (True, st')"
  shows "connected st' = connected st \<and> running st' = running st"
proof (cases "readFrame_recv (maxMessageSize st) (inbound st)")
  case (Pair r inb)
  show ?thesis
  proof (cases r)
    case RecvFailed
    then show ?thesis using Pair assms by (simp add: readFrame_def)
  next
    case RecvTooLarge
    then show ?thesis using Pair assms by (simp add: readFrame_def)
  next
    case (RecvFrame f)
    then show ?thesis using Pair assms
      by (auto simp add: readFrame_def readFrame_dispatch_def handleMessage_def handlePing_def
          handlePong_def sendPongFrame_def sendFrame_eq emit_def Let_def split: if_splits)
  qed
qed

lemma drainSendQueue_keeps_flags:
  "connected (drainSendQueue st) = connected st \<and> running (drainSendQueue st) = running st"
proof -
  have "connected (foldl (\<lambda>s msg. snd (send msg s)) s0 q) = connected s0 \<and>
        running (foldl (\<lambda>s msg. snd (send msg s)) s0 q) = running s0" for s0 q
    by (induction q arbitrary: s0) (simp_all add: send_def sendFrame_eq)
  then show ?thesis by (simp add: drainSendQueue_def)
qed

lemma handlePing_trace:
  "autoPong st \<Longrightarrow>
   handlePing pl st =
     st\<lparr>rngPos := (if connected st then rngPos st + 4 else rngPos st),
        trace := trace st @
          (if connected st then [RawSend (frameBytes Opcode_Pong (nextMaskKey st) pl)] else []) @
          (if onPingCb st then [OnPing pl] else [])\<rparr>"
  by (simp add: handlePing_def sendPongFrame_def sendFrame_eq emit_def)

text \<open>
  C9 (as the code behaves). For every Ping frame that \<^verbatim>\<open>readFrame\<close> receives while
  auto-pong is enabled: when the session is marked connected at that moment, the bytes of
  a Pong frame are handed to \<^verbatim>\<open>rawSend\<close> before the \<^verbatim>\<open>onPing\<close>
  callback is invoked, and these bytes decode to a final Pong frame whose payload is
  exactly the payload of the Ping; when \<^verbatim>\<open>connected\<close> has been cleared, nothing
  is sent and \<^verbatim>\<open>onPing\<close> is invoked all the same. The payload length is below
  \<open>2 ^ 64\<close>, as every \<^verbatim>\<open>size_t\<close> is.
\<close>

theorem ping_answered_while_connected:
  assumes rx: "readFrame_recv (maxMessageSize st) (inbound st) = (RecvFrame f, inb)"
    and op: "opcode f = Opcode_Ping"
    and ap: "autoPong st"
    and sz: "length (payload f) < 2 ^ 64"
  shows "readFrame st =
           (True, st\<lparr>inbound := inb,
                      rngPos := (if connected st then rngPos st + 4 else rngPos st),
                      trace := trace st @
                        (if connected st
                         then [RawSend (frameBytes Opcode_Pong (nextMaskKey st) (payload f))]
                         else []) @
                        (if onPingCb st then [OnPing (payload f)] else [])\<rparr>)
         \<and> readFrame_recv (length (payload f))
               [Bytes (frameBytes Opcode_Pong (nextMaskKey st) (payload f))] =
             (RecvFrame \<lparr>fin = True, opcode = Opcode_Pong, masked = True, payload = payload f\<rparr>, [])"
proof
  show "readFrame st =
           (True, st\<lparr>inbound := inb,
                      rngPos := (if connected st then rngPos st + 4 else rngPos st),
                      trace := trace st @
                        (if connected st
                         then [RawSend (frameBytes Opcode_Pong (nextMaskKey st) (payload f))]
                         else []) @
                        (if onPingCb st then [OnPing (payload f)] else [])\<rparr>)"
    using op ap
    by (simp add: readFrame_frame[OF rx] readFrame_dispatch_def opcodes_distinct handlePing_trace
        nextMaskKey_def)
  show "readFrame_recv (length (payload f))
               [Bytes (frameBytes Opcode_Pong (nextMaskKey st) (payload f))] =
             (RecvFrame \<lparr>fin = True, opcode = Opcode_Pong, masked = True, payload = payload f\<rparr>, [])"
    using frame_roundtrip[where key = "nextMaskKey st" and pl = "payload f"
        and maxSize = "length (payload f)" and opc = Opcode_Pong and rest = "[]"] sz
    by (simp add: pong_nibble length_nextMaskKey)
qed

lemma recv_ping_example:
  "readFrame_recv (maxMessageSize (opened\<lparr>inbound := [Bytes [0x89, 0x03, 1, 2, 3]]\<rparr>))
     (inbound (opened\<lparr>inbound := [Bytes [0x89, 0x03, 1, 2, 3]]\<rparr>)) =
   (RecvFrame \<lparr>fin = True, opcode = Opcode_Ping, masked = False, payload = [1, 2, 3]\<rparr>, [])"
  by (simp add: readFrame_recv_def extendedLength_def recvPayload.simps Opcode_Ping_def
      opened_def fresh_def)

lemma upt_0_4: "[n..<n + 4] = [n, n + 1, n + 2, n + 3]"
  by (simp add: upt_rec[of n] upt_rec[of "Suc n"] upt_rec[of "Suc (Suc n)"]
      upt_rec[of "Suc (Suc (Suc n))"] numeral_eq_Suc)

lemma nextMaskKey_bytes:
  "nextMaskKey st =
     [rng st (rngPos st), rng st (rngPos st + 1), rng st (rngPos st + 2), rng st (rngPos st + 3)]"
  by (simp only: nextMaskKey_def upt_0_4 list.map)

text \<open>
  The property at a Ping frame with payload \<open>[1, 2, 3]\<close> on a connected session.
\<close>

theorem ping_answered_while_connected_witness:
  "readFrame (opened\<lparr>inbound := [Bytes [0x89, 0x03, 1, 2, 3]]\<rparr>) =
     (True, opened\<lparr>inbound := [], rngPos := 4,
                    trace := [RawSend [0x8A, 0x83, 0, 1, 2, 3, 1, 3, 1], OnPing [1, 2, 3]]\<rparr>)"
  using ping_answered_while_connected[OF recv_ping_example]
  by (simp add: opened_def fresh_def nextMaskKey_bytes frameBytes_def Opcode_Pong_def)

lemma recv_ping_closing_example:
  "readFrame_recv (maxMessageSize (closing\<lparr>inbound := [Bytes [0x89, 0x03, 1, 2, 3]]\<rparr>))
     (inbound (closing\<lparr>inbound := [Bytes [0x89, 0x03, 1, 2, 3]]\<rparr>)) =
   (RecvFrame \<lparr>fin = True, opcode = Opcode_Ping, masked = False, payload = [1, 2, 3]\<rparr>, [])"
  by (simp add: readFrame_recv_def extendedLength_def recvPayload.simps Opcode_Ping_def
      closing_def opened_def fresh_def)

text \<open>
  C9 for every received Ping, as the specification has it, fails once \<^verbatim>\<open>disconnect()\<close>
  has cleared \<^verbatim>\<open>connected\<close>: with auto-pong enabled the Ping with payload
  \<open>[1, 2, 3]\<close> reaches \<^verbatim>\<open>onPing\<close> and no Pong is handed to the transport.
\<close>

theorem ping_unanswered_counterexample:
  "autoPong (closing\<lparr>inbound := [Bytes [0x89, 0x03, 1, 2, 3]]\<rparr>)
   \<and> readFrame (closing\<lparr>inbound := [Bytes [0x89, 0x03, 1, 2, 3]]\<rparr>) =
     (True, closing\<lparr>inbound := [], trace := [OnPing [1, 2, 3]]\<rparr>)"
  using readFrame_frame[OF recv_ping_closing_example]
  by (simp add: readFrame_dispatch_def opcodes_distinct handlePing_trace closing_def opened_def
      fresh_def)

subsection \<open>A frame above the size limit\<close>

lemma drain_empty: "sendQueue st = [] \<Longrightarrow> drainSendQueue st = st"
  by (simp add: drainSendQueue_def)

lemma ioLoop_read_fails:
  assumes "running st" "sendQueue st = []" "waitForData (inbound st) = (True, inbound st)"
    and "readFrame st = (False, st')"
  shows "ioLoop st = Some (if connected st' then handleDisconnect st' else Inr st')"
  using assms by (subst ioLoop.simps) (simp add: drain_empty)

lemma triggerError_eq:
  "triggerError c st = st\<lparr>trace := trace st @ (if onErrorCb st then [OnError c] else [])\<rparr>"
  by (simp add: triggerError_def emit_def)

lemma triggerDisconnect_eq:
  "triggerDisconnect c st = st\<lparr>trace := trace st @ (if onDisconnectCb st then [OnDisconnect c] else [])\<rparr>"
  by (simp add: triggerDisconnect_def emit_def)

lemma handleDisconnect_no_retry:
  "\<not> (autoReconnect st \<and> reconnectAttempts st < maxReconnectAttempts st) \<Longrightarrow>
   handleDisconnect st =
     Inr (st\<lparr>connected := False, running := False,
              trace := trace st @ (if onDisconnectCb st then [OnDisconnect CloseCode_AbnormalClosure] else [])\<rparr>)"
  by (auto simp add: handleDisconnect_def triggerDisconnect_eq Let_def)














subsection \<open>Control frames and unknown opcodes\<close>

lemma readFrame_events:
  "\<exists>evs. trace (snd (readFrame st)) = trace st @ evs \<and>
         (\<forall>c. OnError c \<in> set evs \<longrightarrow> c = ErrorCode_MessageTooLarge)"
proof (cases "readFrame_recv (maxMessageSize st) (inbound st)")
  case (Pair r inb)
  show ?thesis
  proof (cases r)
    case RecvFailed
    then show ?thesis using Pair by (simp add: readFrame_def)
  next
    case RecvTooLarge
    then show ?thesis using Pair by (simp add: readFrame_def triggerError_eq)
  next
    case (RecvFrame f)
    then show ?thesis using Pair
      by (simp add: readFrame_def readFrame_dispatch_def handleMessage_trace handleClose_eq
          handlePing_def handlePong_def sendPongFrame_def sendFrame_eq emit_def Let_def)
  qed
qed

text \<open>
  C3 (as the code behaves). No received frame is rejected as \<^verbatim>\<open>InvalidFrame\<close>: whatever
  its FIN bit and its payload length (up to \<^verbatim>\<open>maxMessageSize\<close>), a Ping, Pong
  or Close frame goes to its handler, a frame with any opcode other than Text, Binary,
  Close, Ping and Pong (Continuation included) is read and ignored with the loop going
  on, and \<^verbatim>\<open>readFrame\<close> never reports the error \<^verbatim>\<open>InvalidFrame\<close>.
\<close>

theorem frames_not_validated:
  assumes "readFrame_recv (maxMessageSize st) (inbound st) = (RecvFrame f, inb)"
  shows "(opcode f = Opcode_Ping \<longrightarrow>
            readFrame st = (True, handlePing (payload f) (st\<lparr>inbound := inb\<rparr>)))
       \<and> (opcode f = Opcode_Pong \<longrightarrow>
            readFrame st = (True, handlePong (payload f) (st\<lparr>inbound := inb\<rparr>)))
       \<and> (opcode f = Opcode_Close \<longrightarrow>
            readFrame st = (False, handleClose (payload f) (st\<lparr>inbound := inb\<rparr>)))
       \<and> (opcode f \<notin> {Opcode_Text, Opcode_Binary, Opcode_Close, Opcode_Ping, Opcode_Pong} \<longrightarrow>
            readFrame st = (True, st\<lparr>inbound := inb\<rparr>))
       \<and> (\<exists>evs. trace (snd (readFrame st)) = trace st @ evs \<and>
              OnError ErrorCode_InvalidFrame \<notin> set evs)"
proof -
  have "\<exists>evs. trace (snd (readFrame st)) = trace st @ evs \<and>
              OnError ErrorCode_InvalidFrame \<notin> set evs"
    using readFrame_events[of st]
    by (auto simp add: ErrorCode_InvalidFrame_def ErrorCode_MessageTooLarge_def)
  then show ?thesis
    by (simp add: readFrame_frame[OF assms] readFrame_dispatch_def opcodes_distinct)
qed

lemma long_ping_example:
  "readFrame_recv (maxMessageSize (opened\<lparr>inbound := [Bytes ([0x09, 0x7E, 0x00, 0x7E] @ replicate 126 0)]\<rparr>))
     (inbound (opened\<lparr>inbound := [Bytes ([0x09, 0x7E, 0x00, 0x7E] @ replicate 126 0)]\<rparr>)) =
   (RecvFrame \<lparr>fin = False, opcode = Opcode_Ping, masked = False, payload = replicate 126 0\<rparr>, [])"
  by (simp add: readFrame_recv_def extendedLength_def recvPayload.simps Opcode_Ping_def
      opened_def fresh_def)

text \<open>
  The property at a Ping frame with FIN=0 and a payload of 126 bytes.
\<close>

theorem frames_not_validated_witness:
  "readFrame (opened\<lparr>inbound := [Bytes ([0x09, 0x7E, 0x00, 0x7E] @ replicate 126 0)]\<rparr>) =
     (True, handlePing (replicate 126 0) (opened\<lparr>inbound := []\<rparr>))"
  using frames_not_validated[OF long_ping_example, THEN conjunct1]
  by simp

lemma unknown_opcode_example:
  "readFrame (opened\<lparr>inbound := [Bytes [0x83, 0x00]]\<rparr>) = (True, opened\<lparr>inbound := []\<rparr>)"
  by (simp add: readFrame_def readFrame_recv_def extendedLength_def recvPayload.simps
      readFrame_dispatch_def opened_def fresh_def Opcode_Text_def Opcode_Binary_def
      Opcode_Close_def Opcode_Ping_def Opcode_Pong_def)

lemma long_ping_readFrame_example:
  "readFrame (opened\<lparr>inbound := [Bytes ([0x09, 0x7E, 0x00, 0x7E] @ replicate 126 0)]\<rparr>) =
     (True, opened\<lparr>inbound := [], rngPos := 4,
        trace := [RawSend (frameBytes Opcode_Pong [0, 1, 2, 3] (replicate 126 0)),
                  OnPing (replicate 126 0)]\<rparr>)"
  using long_ping_example
  by (simp add: readFrame_def readFrame_dispatch_def opcodes_distinct handlePing_eq
      nextMaskKey_bytes opened_def fresh_def)

text \<open>
  C3 as the specification has it fails: a Ping frame with FIN=0 and 126 payload bytes is answered with a
  Pong and passed to \<^verbatim>\<open>onPing\<close>, and a frame with opcode \<open>0x3\<close> is
  ignored; in both cases \<^verbatim>\<open>readFrame\<close> returns true and no error is reported.
\<close>

theorem invalid_frames_accepted_counterexample:
  "readFrame (opened\<lparr>inbound := [Bytes ([0x09, 0x7E, 0x00, 0x7E] @ replicate 126 0)]\<rparr>) =
     (True, opened\<lparr>inbound := [], rngPos := 4,
        trace := [RawSend (frameBytes Opcode_Pong [0, 1, 2, 3] (replicate 126 0)),
                  OnPing (replicate 126 0)]\<rparr>)
   \<and> readFrame (opened\<lparr>inbound := [Bytes [0x83, 0x00]]\<rparr>) = (True, opened\<lparr>inbound := []\<rparr>)
   \<and> trace (opened\<lparr>inbound := []\<rparr>) = []"
  using long_ping_readFrame_example unknown_opcode_example
  by (simp add: opened_def fresh_def)


subsection \<open>Fragmented messages\<close>

text \<open>
  C4 (as the code behaves). Every received Text or Binary frame, whatever its FIN bit, is delivered
  at once to the message callbacks as a message of its own, and every Continuation frame
  is read and dropped: there is no fragment assembly.
\<close>

theorem data_frames_delivered_unassembled:
  assumes "readFrame_recv (maxMessageSize st) (inbound st) = (RecvFrame f, inb)"
  shows "(opcode f = Opcode_Text \<or> opcode f = Opcode_Binary \<longrightarrow>
            readFrame st = (True, handleMessage (payload f) (st\<lparr>inbound := inb\<rparr>))
            \<and> trace (snd (readFrame st)) =
                trace st @ (if onRawMessageCb st then [OnRawMessage (payload f)] else []) @
                  (if jsonParses st (payload f) \<and> onMessageCb st then [OnMessage (payload f)] else []))
       \<and> (opcode f = Opcode_Continuation \<longrightarrow> readFrame st = (True, st\<lparr>inbound := inb\<rparr>))"
  by (auto simp add: readFrame_frame[OF assms] readFrame_dispatch_def opcodes_distinct
      handleMessage_trace)

lemma fragment_example:
  "readFrame_recv (maxMessageSize (opened\<lparr>inbound := [Bytes [0x01, 0x02, 0x61, 0x62], Bytes [0x80, 0x01, 0x63]]\<rparr>))
     (inbound (opened\<lparr>inbound := [Bytes [0x01, 0x02, 0x61, 0x62], Bytes [0x80, 0x01, 0x63]]\<rparr>)) =
   (RecvFrame \<lparr>fin = False, opcode = Opcode_Text, masked = False, payload = [0x61, 0x62]\<rparr>,
    [Bytes [0x80, 0x01, 0x63]])"
  by (simp add: readFrame_recv_def extendedLength_def recvPayload.simps Opcode_Text_def
      opened_def fresh_def)

text \<open>
  The property at a Text frame with FIN=0 and payload \<open>ab\<close>.
\<close>

theorem data_frames_delivered_unassembled_witness:
  "readFrame (opened\<lparr>inbound := [Bytes [0x01, 0x02, 0x61, 0x62], Bytes [0x80, 0x01, 0x63]]\<rparr>) =
     (True, handleMessage [0x61, 0x62] (opened\<lparr>inbound := [Bytes [0x80, 0x01, 0x63]]\<rparr>))
   \<and> trace (snd (readFrame (opened\<lparr>inbound := [Bytes [0x01, 0x02, 0x61, 0x62], Bytes [0x80, 0x01, 0x63]]\<rparr>))) =
       [OnRawMessage [0x61, 0x62]]"
  using data_frames_delivered_unassembled[OF fragment_example, THEN conjunct1]
  by (simp add: opened_def fresh_def handleMessage_trace)

lemma fragment_first_example:
  "readFrame (opened\<lparr>inbound := [Bytes [0x01, 0x02, 0x61, 0x62], Bytes [0x80, 0x01, 0x63]]\<rparr>) =
     (True, opened\<lparr>inbound := [Bytes [0x80, 0x01, 0x63]], trace := [OnRawMessage [0x61, 0x62]]\<rparr>)"
  by (simp add: readFrame_def readFrame_recv_def extendedLength_def recvPayload.simps
      readFrame_dispatch_def handleMessage_def emit_def opened_def fresh_def Opcode_Text_def)

lemma fragment_second_example:
  "readFrame (opened\<lparr>inbound := [Bytes [0x80, 0x01, 0x63]], trace := [OnRawMessage [0x61, 0x62]]\<rparr>) =
     (True, opened\<lparr>inbound := [], trace := [OnRawMessage [0x61, 0x62]]\<rparr>)"
  by (simp add: readFrame_def readFrame_recv_def extendedLength_def recvPayload.simps
      readFrame_dispatch_def opened_def fresh_def Opcode_Text_def Opcode_Binary_def
      Opcode_Close_def Opcode_Ping_def Opcode_Pong_def)

text \<open>
  C4 as the specification has it fails: the Text frame with FIN=0 and payload \<open>ab\<close> is delivered to
  \<^verbatim>\<open>onRawMessage\<close> at once, and the final Continuation frame with payload
  \<open>c\<close> that follows delivers nothing.
\<close>

theorem fragments_not_assembled_counterexample:
  "readFrame (opened\<lparr>inbound := [Bytes [0x01, 0x02, 0x61, 0x62], Bytes [0x80, 0x01, 0x63]]\<rparr>) =
     (True, opened\<lparr>inbound := [Bytes [0x80, 0x01, 0x63]], trace := [OnRawMessage [0x61, 0x62]]\<rparr>)
   \<and> readFrame (opened\<lparr>inbound := [Bytes [0x80, 0x01, 0x63]], trace := [OnRawMessage [0x61, 0x62]]\<rparr>) =
     (True, opened\<lparr>inbound := [], trace := [OnRawMessage [0x61, 0x62]]\<rparr>)"
  using fragment_first_example fragment_second_example by simp

subsection \<open>A Close frame from the peer\<close>

text \<open>
  Whatever its payload, a Close frame clears both flags and ends the loop with no event.
\<close>

lemma close_frame_silent:
  assumes "readFrame_recv (maxMessageSize st) (inbound st) = (RecvFrame f, inb)"
    and "opcode f = Opcode_Close"
  shows "readFrame st = (False, st\<lparr>inbound := inb, connected := False, running := False\<rparr>)"
  using assms(2)
  by (simp add: readFrame_frame[OF assms(1)] readFrame_dispatch_def opcodes_distinct handleClose_eq)

lemma close_frame_ends_loop_silently:
  assumes "readFrame_recv (maxMessageSize st) (inbound st) = (RecvFrame f, inb)"
    and "opcode f = Opcode_Close"
    and "running st" "sendQueue st = []" "waitForData (inbound st) = (True, inbound st)"
  shows "ioLoop st = Some (Inr (st\<lparr>inbound := inb, connected := False, running := False\<rparr>))"
  using ioLoop_read_fails[OF assms(3) assms(4) assms(5) close_frame_silent[OF assms(1) assms(2)]]
  by simp

lemma close_example_read:
  "readFrame (opened\<lparr>inbound := [Bytes [0x88, 0x02, 0x03, 0xE8]]\<rparr>) =
     (False, opened\<lparr>inbound := [], connected := False, running := False\<rparr>)"
  by (simp add: readFrame_def readFrame_recv_def extendedLength_def recvPayload.simps
      readFrame_dispatch_def handleClose_eq opened_def fresh_def Opcode_Text_def Opcode_Binary_def
      Opcode_Close_def)

lemma close_example_loop:
  "ioLoop (opened\<lparr>inbound := [Bytes [0x88, 0x02, 0x03, 0xE8]]\<rparr>) =
     Some (Inr (opened\<lparr>inbound := [], connected := False, running := False\<rparr>))"
  using ioLoop_read_fails[OF _ _ _ close_example_read]
  by (simp add: opened_def fresh_def)

text \<open>
  C2. The specification says that on a Close frame the loop extracts the status code, marks the session
  closed, ends, and \<^verbatim>\<open>onDisconnect\<close> is invoked with that code (1000 when the
  peer closes with 1000). The code computes the status code into a local variable of
  \<^verbatim>\<open>handleClose\<close> that is never read, clears \<^verbatim>\<open>connected\<close> and
  \<^verbatim>\<open>running\<close>, and the loop ends without calling \<^verbatim>\<open>handleDisconnect\<close>
  (the connection is no longer marked connected): for a Close frame with code 1000 no
  callback is invoked at all, and a later \<^verbatim>\<open>disconnect()\<close> reports nothing
  either.
\<close>

theorem close_frame_reports_no_disconnect:
  "handleClose_code [0x03, 0xE8] = 1000
   \<and> ioLoop (opened\<lparr>inbound := [Bytes [0x88, 0x02, 0x03, 0xE8]]\<rparr>) =
       Some (Inr (opened\<lparr>inbound := [], connected := False, running := False\<rparr>))
   \<and> trace (opened\<lparr>inbound := [], connected := False, running := False\<rparr>) = []
   \<and> trace (disconnect CloseCode_Normal (opened\<lparr>inbound := [], connected := False, running := False\<rparr>)) =
       [HeartbeatStop]"
  using close_example_loop
  by (simp add: handleClose_code_def disconnect_def emit_def cleanup_def opened_def fresh_def)

subsection \<open>Reconnection\<close>

text \<open>
  \<^verbatim>\<open>handleDisconnect\<close> uses at most one connection attempt. A first
  \<^verbatim>\<open>connect()\<close> that succeeds resets the attempt counter; a reconnection that
  succeeds resets it too and then assigns to the I/O thread object from inside that
  thread, which ends the program.
\<close>

lemma connect_one_attempt:
  "connect st = Inr (ok, st') \<Longrightarrow> length (network st) \<le> Suc (length (network st'))"
  by (auto simp add: connect_def next_attempt_def triggerError_eq triggerConnect_def emit_def
      cleanup_def split: if_splits list.splits)

lemma handleDisconnect_one_attempt:
  assumes "handleDisconnect st = Inr st'"
  shows "length (network st) \<le> Suc (length (network st'))"
proof (cases "autoReconnect st \<and> reconnectAttempts st < maxReconnectAttempts st")
  case False
  then show ?thesis using assms by (auto simp add: handleDisconnect_no_retry)
next
  case True
  define st3 where
    "st3 = cleanup (emit (SleepFor (1 * (reconnectAttempts st + 1)))
             (st\<lparr>connected := False, reconnectAttempts := reconnectAttempts st + 1\<rparr>))"
  have n3: "network st3 = network st"
    by (simp add: st3_def cleanup_def emit_def)
  obtain ok st4 where c: "connect st3 = Inr (ok, st4)"
    and r: "st' = (if ok then st4 else triggerDisconnect CloseCode_AbnormalClosure (st4\<lparr>running := False\<rparr>))"
    using assms True
    by (auto simp add: handleDisconnect_def Let_def st3_def split: sum.splits if_splits)
  show ?thesis
    using connect_one_attempt[OF c] r n3 by (cases ok) (auto simp add: triggerDisconnect_eq)
qed

lemma first_connect_resets_counter:
  "connect (fresh\<lparr>reconnectAttempts := 1,
              network := [\<lparr>socketOk = True, tcpOk = True, tlsOk = True, handshakeOk = True\<rparr>]\<rparr>) =
   Inr (True, fresh\<lparr>reconnectAttempts := 0, network := [], socket_open := True,
                     connected := True, running := True, ioThread_joinable := True,
                     trace := [HeartbeatStart, OnConnect]\<rparr>)"
  by (simp add: connect_def next_attempt_def valid_def cleanup_def emit_def triggerConnect_def
      fresh_def)

lemma reconnect_success_terminates:
  "handleDisconnect
     (opened\<lparr>network := [\<lparr>socketOk = True, tcpOk = True, tlsOk = True, handshakeOk = True\<rparr>]\<rparr>) =
   Inl StdTerminate"
  by (simp add: handleDisconnect_def connect_def next_attempt_def valid_def cleanup_def emit_def
      opened_def fresh_def Let_def)

text \<open>
  C7. The specification says that with auto-reconnect and \<^verbatim>\<open>maxReconnectAttempts = M\<close> the session
  makes M reconnection attempts, attempt N after N seconds, before it reports 1006. The
  code of \<^verbatim>\<open>handleDisconnect\<close> makes one attempt and has no loop: with
  \<open>M = 2\<close> and a server that refuses every connection it sleeps one second, fails to
  connect once, and reports \<^verbatim>\<open>onDisconnect(1006)\<close>; the second attempt is never
  made.
\<close>

theorem reconnect_single_attempt:
  "handleDisconnect
     (opened\<lparr>maxReconnectAttempts := 2,
        network := [\<lparr>socketOk = True, tcpOk = False, tlsOk = False, handshakeOk = False\<rparr>,
                    \<lparr>socketOk = True, tcpOk = False, tlsOk = False, handshakeOk = False\<rparr>]\<rparr>) =
   Inr (opened\<lparr>maxReconnectAttempts := 2, connected := False, running := False,
          reconnectAttempts := 1, socket_open := False,
          network := [\<lparr>socketOk = True, tcpOk = False, tlsOk = False, handshakeOk = False\<rparr>],
          trace := [SleepFor 1, OnError ErrorCode_ConnectionFailed,
                    OnDisconnect CloseCode_AbnormalClosure]\<rparr>)"
  by (simp add: handleDisconnect_def connect_def next_attempt_def valid_def cleanup_def emit_def
      triggerError_eq triggerDisconnect_eq opened_def fresh_def Let_def)

section \<open>The frame codec round trip\<close>





















section \<open>The URL parser against its specification\<close>

lemma find_char_takeWhile:
  "find_char c s = (if c \<in> set s then Some (length (takeWhile (\<lambda>x. x \<noteq> c) s)) else None)"
  by (induction s) auto

lemma rfind_char_absent: "c \<notin> set s \<Longrightarrow> rfind_char c s = None"
  by (induction s) auto

lemma rfind_char_last: "c \<notin> set p \<Longrightarrow> rfind_char c (h @ c # p) = Some (length h)"
  by (induction h) (auto simp add: rfind_char_absent)

lemma split_at_slash:
  "(case find_char CHR ''/'' rest of Some pathPos \<Rightarrow> substr 0 pathPos rest | None \<Rightarrow> rest) =
     takeWhile (\<lambda>c. c \<noteq> CHR ''/'') rest"
proof (cases "CHR ''/'' \<in> set rest")
  case True
  then show ?thesis
    by (simp add: find_char_takeWhile substr_def takeWhile_eq_take[symmetric])
next
  case False
  have t: "takeWhile (\<lambda>c. c \<noteq> CHR ''/'') rest = rest"
    using False by (auto simp add: takeWhile_eq_all_conv)
  have f: "find_char CHR ''/'' rest = None"
    using False by (simp add: find_char_takeWhile)
  show ?thesis unfolding f t by simp
qed

lemma path_at_slash:
  "(case find_char CHR ''/'' rest of
      Some pathPos \<Rightarrow> r\<lparr>path := substr_from pathPos rest\<rparr>
    | None \<Rightarrow> r\<lparr>path := ''/''\<rparr>) =
     r\<lparr>path := (if dropWhile (\<lambda>c. c \<noteq> CHR ''/'') rest = [] then ''/''
                 else dropWhile (\<lambda>c. c \<noteq> CHR ''/'') rest)\<rparr>"
  by (auto simp add: find_char_takeWhile substr_from_def dropWhile_eq_drop[symmetric]
      dropWhile_eq_Nil_conv)

lemma scheme_wss: "substr 0 6 (''wss://'' @ rest) = ''wss://''"
  by (simp add: substr_def)

lemma parseUrl_wss:
  "parseUrl (''wss://'' @ rest) =
     (case rfind_char CHR '':'' (takeWhile (\<lambda>c. c \<noteq> CHR ''/'') rest) of
        Some colonPos \<Rightarrow>
          (case stoi (substr_from (colonPos + 1) (takeWhile (\<lambda>c. c \<noteq> CHR ''/'') rest)) of
             Inl e \<Rightarrow> Inl e
           | Inr v \<Rightarrow>
               Inr \<lparr>secure = True, host = substr 0 colonPos (takeWhile (\<lambda>c. c \<noteq> CHR ''/'') rest),
                    port = word_of_int v,
                    path = (if dropWhile (\<lambda>c. c \<noteq> CHR ''/'') rest = [] then ''/''
                            else dropWhile (\<lambda>c. c \<noteq> CHR ''/'') rest)\<rparr>)
      | None \<Rightarrow>
          Inr \<lparr>secure = True, host = takeWhile (\<lambda>c. c \<noteq> CHR ''/'') rest, port = 443,
               path = (if dropWhile (\<lambda>c. c \<noteq> CHR ''/'') rest = [] then ''/''
                       else dropWhile (\<lambda>c. c \<noteq> CHR ''/'') rest)\<rparr>)"
  unfolding parseUrl_def scheme_wss
  by (auto simp add: Let_def split_at_slash path_at_slash remove_prefix_def
      split: option.split sum.split)

lemma scheme_ws_not: "(substr 0 6 (''ws://'' @ rest) = ''wss://'') = False"
  by (simp add: substr_def)

lemma scheme_ws_is: "substr 0 5 (''ws://'' @ rest) = ''ws://''"
  by (simp add: substr_def)

lemma parseUrl_ws:
  "parseUrl (''ws://'' @ rest) =
     (case rfind_char CHR '':'' (takeWhile (\<lambda>c. c \<noteq> CHR ''/'') rest) of
        Some colonPos \<Rightarrow>
          (case stoi (substr_from (colonPos + 1) (takeWhile (\<lambda>c. c \<noteq> CHR ''/'') rest)) of
             Inl e \<Rightarrow> Inl e
           | Inr v \<Rightarrow>
               Inr \<lparr>secure = False, host = substr 0 colonPos (takeWhile (\<lambda>c. c \<noteq> CHR ''/'') rest),
                    port = word_of_int v,
                    path = (if dropWhile (\<lambda>c. c \<noteq> CHR ''/'') rest = [] then ''/''
                            else dropWhile (\<lambda>c. c \<noteq> CHR ''/'') rest)\<rparr>)
      | None \<Rightarrow>
          Inr \<lparr>secure = False, host = takeWhile (\<lambda>c. c \<noteq> CHR ''/'') rest, port = 80,
               path = (if dropWhile (\<lambda>c. c \<noteq> CHR ''/'') rest = [] then ''/''
                       else dropWhile (\<lambda>c. c \<noteq> CHR ''/'') rest)\<rparr>)"
  unfolding parseUrl_def scheme_ws_not scheme_ws_is
  by (auto simp add: Let_def split_at_slash path_at_slash remove_prefix_def
      split: option.split sum.split)

lemma parseUrl_other_scheme:
  assumes "\<forall>rest. url \<noteq> ''wss://'' @ rest" "\<forall>rest. url \<noteq> ''ws://'' @ rest"
  shows "parseUrl url = Inr \<lparr>secure = False, host = [], port = 0, path = []\<rparr>"
proof -
  have a: "substr 0 6 url \<noteq> ''wss://''"
  proof
    assume "substr 0 6 url = ''wss://''"
    then have "url = ''wss://'' @ drop 6 url"
      using append_take_drop_id[of 6 url] by (simp add: substr_def)
    then show False using assms(1) by blast
  qed
  have b: "substr 0 5 url \<noteq> ''ws://''"
  proof
    assume "substr 0 5 url = ''ws://''"
    then have "url = ''ws://'' @ drop 5 url"
      using append_take_drop_id[of 5 url] by (simp add: substr_def)
    then show False using assms(2) by blast
  qed
  show ?thesis by (simp add: parseUrl_def a b)
qed

lemma parseUrl_no_port:
  assumes "(sec \<and> url = ''wss://'' @ rest) \<or> (\<not> sec \<and> url = ''ws://'' @ rest)"
    and "CHR '':'' \<notin> set (takeWhile (\<lambda>c. c \<noteq> CHR ''/'') rest)"
  shows "parseUrl url =
           Inr \<lparr>secure = sec, host = takeWhile (\<lambda>c. c \<noteq> CHR ''/'') rest,
                port = (if sec then 443 else 80),
                path = (if dropWhile (\<lambda>c. c \<noteq> CHR ''/'') rest = [] then ''/''
                        else dropWhile (\<lambda>c. c \<noteq> CHR ''/'') rest)\<rparr>"
proof (cases sec)
  case True
  then have u: "url = ''wss://'' @ rest" using assms(1) by simp
  show ?thesis
    unfolding u parseUrl_wss using True by (simp add: rfind_char_absent[OF assms(2)])
next
  case False
  then have u: "url = ''ws://'' @ rest" using assms(1) by simp
  show ?thesis
    unfolding u parseUrl_ws using False by (simp add: rfind_char_absent[OF assms(2)])
qed

lemma parseUrl_with_port:
  assumes "(sec \<and> url = ''wss://'' @ rest) \<or> (\<not> sec \<and> url = ''ws://'' @ rest)"
    and "takeWhile (\<lambda>c. c \<noteq> CHR ''/'') rest = h @ CHR '':'' # p"
    and "CHR '':'' \<notin> set p"
  shows "parseUrl url =
           (case stoi p of
              Inl e \<Rightarrow> Inl e
            | Inr v \<Rightarrow>
                Inr \<lparr>secure = sec, host = h, port = word_of_int v,
                     path = (if dropWhile (\<lambda>c. c \<noteq> CHR ''/'') rest = [] then ''/''
                             else dropWhile (\<lambda>c. c \<noteq> CHR ''/'') rest)\<rparr>)"
proof (cases sec)
  case True
  then have u: "url = ''wss://'' @ rest" using assms(1) by simp
  show ?thesis
    unfolding u parseUrl_wss assms(2) rfind_char_last[OF assms(3)]
    using True by (simp add: substr_def substr_from_def split: sum.split)
next
  case False
  then have u: "url = ''ws://'' @ rest" using assms(1) by simp
  show ?thesis
    unfolding u parseUrl_ws assms(2) rfind_char_last[OF assms(3)]
    using False by (simp add: substr_def substr_from_def split: sum.split)
qed

lemma decimal_value_foldl_nonneg:
  "0 \<le> a \<Longrightarrow> \<forall>c\<in>set ds. isdigit_c c \<Longrightarrow>
     0 \<le> foldl (\<lambda>acc c. acc * 10 + digit_value c) a ds"
  by (induction ds arbitrary: a) (auto simp add: isdigit_c_def digit_value_def)


lemma stoi_digits:
  assumes "p \<noteq> []" "\<forall>c\<in>set p. isdigit_c c" "decimal_value p \<le> 65535"
  shows "stoi p = Inr (decimal_value p)"
    and "uint (word_of_int (decimal_value p) :: 16 word) = decimal_value p"
proof -
  obtain c r where p: "p = c # r" using assms(1) by (cases p) auto
  have d: "isdigit_c c" using assms(2) p by simp
  then have ns: "\<not> isspace_c c" by (auto simp add: isdigit_c_def isspace_c_def)
  have sg: "c \<noteq> CHR ''-''" "c \<noteq> CHR ''+''"
    using d by (auto simp add: isdigit_c_def)
  have tw: "takeWhile isdigit_c p = p" using assms(2) by (simp add: takeWhile_eq_all_conv)
  have nn: "0 \<le> decimal_value p"
    using decimal_value_foldl_nonneg[of 0 p] assms(2) by (simp add: decimal_value_def)
  show "stoi p = Inr (decimal_value p)"
    using ns sg nn assms(3) tw by (simp add: stoi_def p Let_def)
  show "uint (word_of_int (decimal_value p) :: 16 word) = decimal_value p"
    using nn assms(3) by (simp add: uint_word_of_int take_bit_eq_mod)
qed

lemma parse_secure:
  assumes "parseUrl url = Inr r" "valid r"
  shows "(secure r \<and> (\<exists>rest. url = ''wss://'' @ rest)) \<or> (\<not> secure r \<and> (\<exists>rest. url = ''ws://'' @ rest))"
proof (cases "\<exists>rest. url = ''wss://'' @ rest")
  case True
  then obtain rest where u: "url = ''wss://'' @ rest" by blast
  have "secure r"
    using assms(1) unfolding u parseUrl_wss
    by (auto split: option.splits sum.splits)
  then show ?thesis using True by blast
next
  case False
  show ?thesis
  proof (cases "\<exists>rest. url = ''ws://'' @ rest")
    case True
    then obtain rest where u: "url = ''ws://'' @ rest" by blast
    have "\<not> secure r"
      using assms(1) unfolding u parseUrl_ws
      by (auto split: option.splits sum.splits)
    then show ?thesis using True by blast
  next
    case no: False
    have "parseUrl url = Inr \<lparr>secure = False, host = [], port = 0, path = []\<rparr>"
      using parseUrl_other_scheme False no by blast
    then show ?thesis using assms by (auto simp add: valid_def)
  qed
qed

text \<open>
  C6. Whenever \<^verbatim>\<open>parseUrl\<close> returns, its result is what the specification
  describes. A URL that starts with neither \<^verbatim>\<open>wss://\<close> nor \<^verbatim>\<open>ws://\<close>
  gives an invalid parse. After \<^verbatim>\<open>wss://\<close> (secure, default port 443) or
  \<^verbatim>\<open>ws://\<close> (not secure, default port 80) the text is split at the first
  \<^verbatim>\<open>/\<close> into the authority and the path, the path defaulting to \<^verbatim>\<open>/\<close>;
  an authority without a colon is the host, with the default port; otherwise the text
  after the last colon is the port, converted by \<^verbatim>\<open>std::stoi\<close> and cast to 16
  bits, and the text before it is the host; for a decimal port up to 65535 this is the
  number written. A parse with an empty host is invalid, and a valid parse comes only
  from one of the two schemes. (What happens when the conversion of the port throws is
  the subject of C10.)
\<close>

theorem parseUrl_spec:
  "((\<forall>rest. url \<noteq> ''wss://'' @ rest) \<and> (\<forall>rest. url \<noteq> ''ws://'' @ rest) \<longrightarrow>
      parseUrl url = Inr \<lparr>secure = False, host = [], port = 0, path = []\<rparr>
      \<and> \<not> valid \<lparr>secure = False, host = [], port = 0, path = []\<rparr>)
   \<and> ((sec \<and> url = ''wss://'' @ rest) \<or> (\<not> sec \<and> url = ''ws://'' @ rest) \<longrightarrow>
        (CHR '':'' \<notin> set (spec_authority rest) \<longrightarrow>
           parseUrl url = Inr \<lparr>secure = sec, host = spec_authority rest,
                                port = (if sec then 443 else 80), path = spec_path rest\<rparr>)
      \<and> (spec_authority rest = h @ CHR '':'' # p \<and> CHR '':'' \<notin> set p \<longrightarrow>
           (stoi p = Inr v \<longrightarrow>
              parseUrl url = Inr \<lparr>secure = sec, host = h, port = word_of_int v,
                                   path = spec_path rest\<rparr>)
         \<and> (p \<noteq> [] \<and> (\<forall>c\<in>set p. isdigit_c c) \<and> decimal_value p \<le> 65535 \<longrightarrow>
              parseUrl url = Inr \<lparr>secure = sec, host = h, port = word_of_int (decimal_value p),
                                   path = spec_path rest\<rparr>
              \<and> uint (word_of_int (decimal_value p) :: 16 word) = decimal_value p)))
   \<and> (parseUrl url = Inr r \<and> host r = [] \<longrightarrow> \<not> valid r)
   \<and> (parseUrl url = Inr r \<and> valid r \<longrightarrow>
        (secure r \<and> (\<exists>rest. url = ''wss://'' @ rest)) \<or>
        (\<not> secure r \<and> (\<exists>rest. url = ''ws://'' @ rest)))"
proof (intro conjI impI)
  assume "(\<forall>rest. url \<noteq> ''wss://'' @ rest) \<and> (\<forall>rest. url \<noteq> ''ws://'' @ rest)"
  then show "parseUrl url = Inr \<lparr>secure = False, host = [], port = 0, path = []\<rparr>"
    using parseUrl_other_scheme by blast
next
  show "\<not> valid \<lparr>secure = False, host = [], port = 0, path = []\<rparr>"
    by (simp add: valid_def)
next
  assume s: "(sec \<and> url = ''wss://'' @ rest) \<or> (\<not> sec \<and> url = ''ws://'' @ rest)"
    and c: "CHR '':'' \<notin> set (spec_authority rest)"
  show "parseUrl url = Inr \<lparr>secure = sec, host = spec_authority rest,
                                port = (if sec then 443 else 80), path = spec_path rest\<rparr>"
    using parseUrl_no_port[OF s] c by (simp add: spec_authority_def spec_path_def)
next
  assume s: "(sec \<and> url = ''wss://'' @ rest) \<or> (\<not> sec \<and> url = ''ws://'' @ rest)"
    and a: "spec_authority rest = h @ CHR '':'' # p \<and> CHR '':'' \<notin> set p"
    and v: "stoi p = Inr v"
  show "parseUrl url = Inr \<lparr>secure = sec, host = h, port = word_of_int v, path = spec_path rest\<rparr>"
    using parseUrl_with_port[OF s, of h p] a v by (simp add: spec_authority_def spec_path_def)
next
  assume s: "(sec \<and> url = ''wss://'' @ rest) \<or> (\<not> sec \<and> url = ''ws://'' @ rest)"
    and a: "spec_authority rest = h @ CHR '':'' # p \<and> CHR '':'' \<notin> set p"
    and d: "p \<noteq> [] \<and> (\<forall>c\<in>set p. isdigit_c c) \<and> decimal_value p \<le> 65535"
  have v: "stoi p = Inr (decimal_value p)" using stoi_digits(1) d by blast
  show "parseUrl url = Inr \<lparr>secure = sec, host = h, port = word_of_int (decimal_value p),
                                   path = spec_path rest\<rparr>"
    using parseUrl_with_port[OF s, of h p] a v by (simp add: spec_authority_def spec_path_def)
  show "uint (word_of_int (decimal_value p) :: 16 word) = decimal_value p"
    using stoi_digits(2) d by blast
next
  assume "parseUrl url = Inr r \<and> host r = []"
  then show "\<not> valid r" by (simp add: valid_def)
next
  assume "parseUrl url = Inr r \<and> valid r"
  then show "(secure r \<and> (\<exists>rest. url = ''wss://'' @ rest)) \<or>
        (\<not> secure r \<and> (\<exists>rest. url = ''ws://'' @ rest))"
    using parse_secure by blast
qed


lemma stoi_8080: "stoi ''8080'' = Inr 8080"
  by code_simp

lemma parseUrl_empty_host_example:
  "parseUrl ''ws:///x'' = Inr \<lparr>secure = False, host = [], port = 80, path = ''/x''\<rparr>"
  by code_simp

text \<open>
  The property at \<^verbatim>\<open>ws://h:8080/x\<close>, \<^verbatim>\<open>wss://echo.example\<close>,
  \<^verbatim>\<open>http://h/\<close> and \<^verbatim>\<open>ws:///x\<close>.
\<close>

theorem parseUrl_spec_witness:
  "parseUrl ''ws://h:8080/x'' = Inr \<lparr>secure = False, host = ''h'', port = 8080, path = ''/x''\<rparr>
   \<and> parseUrl ''wss://echo.example'' =
       Inr \<lparr>secure = True, host = ''echo.example'', port = 443, path = ''/''\<rparr>
   \<and> parseUrl ''http://h/'' = Inr \<lparr>secure = False, host = [], port = 0, path = []\<rparr>
   \<and> \<not> valid \<lparr>secure = False, host = [], port = 80, path = ''/x''\<rparr>"
proof -
  have a: "parseUrl ''ws://h:8080/x'' =
             Inr \<lparr>secure = False, host = ''h'', port = 8080, path = ''/x''\<rparr>"
    using parseUrl_spec[where url = "''ws://h:8080/x''" and sec = False and rest = "''h:8080/x''"
        and h = "''h''" and p = "''8080''" and v = 8080]
    by (simp add: spec_authority_def spec_path_def stoi_8080)
  have b: "parseUrl ''wss://echo.example'' =
             Inr \<lparr>secure = True, host = ''echo.example'', port = 443, path = ''/''\<rparr>"
    using parseUrl_spec[where url = "''wss://echo.example''" and sec = True
        and rest = "''echo.example''"]
    by (simp add: spec_authority_def spec_path_def)
  have c: "parseUrl ''http://h/'' = Inr \<lparr>secure = False, host = [], port = 0, path = []\<rparr>"
    using parseUrl_spec[where url = "''http://h/''"]
    by simp
  have d: "\<not> valid \<lparr>secure = False, host = [], port = 80, path = ''/x''\<rparr>"
    using parseUrl_spec[where url = "''ws:///x''"
        and r = "\<lparr>secure = False, host = [], port = 80, path = ''/x''\<rparr>"]
    by (simp add: parseUrl_empty_host_example)
  show ?thesis using a b c d by simp
qed

section \<open>The URL parser throws on a malformed port\<close>

lemma parseUrl_nonnumeric_port: "parseUrl ''ws://host:abc/'' = Inl InvalidArgument"
  by code_simp

lemma parseUrl_huge_port: "parseUrl ''ws://host:99999999999/'' = Inl OutOfRange"
  by code_simp

text \<open>
  C10. The property: \<^verbatim>\<open>parseUrl\<close>, and with it \<^verbatim>\<open>WebSocket::connect()\<close>, returns
  for every URL, a port text that is not a number or does not fit \<^verbatim>\<open>int\<close> giving an
  invalid parse that \<^verbatim>\<open>connect()\<close> reports as \<^verbatim>\<open>InvalidUrl\<close>. The code
  converts the port text with \<^verbatim>\<open>std::stoi\<close> and catches nothing: for
  \<^verbatim>\<open>ws://host:abc/\<close> the parser throws \<^verbatim>\<open>std::invalid_argument\<close>, for
  \<^verbatim>\<open>ws://host:99999999999/\<close> it throws \<^verbatim>\<open>std::out_of_range\<close>, and the
  exception leaves the constructor of the session, so \<^verbatim>\<open>connect()\<close> is never
  reached and no \<^verbatim>\<open>InvalidUrl\<close> error is reported.
\<close>

theorem parseUrl_bad_port_throws:
  "parseUrl ''ws://host:abc/'' = Inl InvalidArgument
   \<and> parseUrl ''ws://host:99999999999/'' = Inl OutOfRange
   \<and> WebSocket_connect ''ws://host:abc/'' fresh = Inl InvalidArgument
   \<and> WebSocket_connect ''ws://host:99999999999/'' fresh = Inl OutOfRange"
  by (simp add: WebSocket_connect_def Impl_ctor_def parseUrl_nonnumeric_port parseUrl_huge_port)

section \<open>The heartbeat manager's mode switch\<close>

text \<open>
  \<^verbatim>\<open>stop()\<close> called with the mutex free returns, with the worker joined.
\<close>

lemma hb_stop_returns:
  "\<not> hb_mutex_held h \<Longrightarrow>
     hb_stop h = Some (h\<lparr>hb_running := False, hb_timerThread := (hb_timerThread h \<and> \<not> hb_running h)\<rparr>)"
  by (cases h) (auto simp add: hb_stop_def lock_guard_def unlock_def join_timerThread_def)

text \<open>
  C8. The specification says that while the heartbeat worker runs, \<^verbatim>\<open>setMode(Disabled)\<close> returns and
  the worker has stopped by then. The code takes \<^verbatim>\<open>mutex_\<close> in \<^verbatim>\<open>setMode\<close>
  and, still holding it, calls \<^verbatim>\<open>stop()\<close>, whose first statement takes the same
  non-recursive mutex: the call never returns, whatever the state of the manager. Here
  it is evaluated on the manager as \<^verbatim>\<open>start\<close> leaves it, where \<^verbatim>\<open>stop()\<close>
  alone returns with the worker joined.
\<close>

theorem setMode_Disabled_never_returns:
  "hb_start \<lparr>hb_mode = Opcode, hb_running = False, hb_timerThread = False, hb_mutex_held = False\<rparr>
     = Some \<lparr>hb_mode = Opcode, hb_running = True, hb_timerThread = True, hb_mutex_held = False\<rparr>
   \<and> setMode Disabled \<lparr>hb_mode = Opcode, hb_running = True, hb_timerThread = True, hb_mutex_held = False\<rparr>
     = None
   \<and> hb_stop \<lparr>hb_mode = Opcode, hb_running = True, hb_timerThread = True, hb_mutex_held = False\<rparr>
     = Some \<lparr>hb_mode = Opcode, hb_running = False, hb_timerThread = False, hb_mutex_held = False\<rparr>
   \<and> (\<forall>h. setMode Disabled h = None)"
  by (simp add: setMode_def hb_stop_def hb_start_def lock_guard_def unlock_def join_timerThread_def)

end
